theory Spec2Isabelle
  imports Main "HOL-Library.Multiset" "HOL-Library.Sublist"
begin

section \<open>Python values, exceptions and \<open>str\<close>\<close>

text \<open>
  The two source files are \<^verbatim>\<open>buildbot/data/base.py\<close> (\<open>ResourceType.produceEvent\<close>) and
  \<^verbatim>\<open>buildbot/process/builder.py\<close> (the \<open>Builder\<close> class). Python integers are unbounded
  and are modelled by \<^typ>\<open>int\<close>; byte strings by \<^typ>\<open>string\<close>. Every exception the
  source can raise is a value of \<open>error\<close>, and a computation that may raise returns
  \<open>error + 'a\<close> with \<open>Inl\<close> for the exception.
\<close>

datatype error =
    AttributeError      \<comment> \<open>attribute access on \<open>None\<close>, or a method that does not exist\<close>
  | IndexError          \<comment> \<open>\<open>xs[-1]\<close> or \<open>xs[0]\<close> on an empty list\<close>
  | ValueError          \<comment> \<open>\<open>list.remove(x)\<close> with \<open>x\<close> not in the list\<close>
  | KeyError            \<comment> \<open>\<open>d[k]\<close> with \<open>k\<close> not in the dict\<close>
  | UnboundLocalError   \<comment> \<open>a local variable read before any assignment\<close>
  | Failure             \<comment> \<open>an exception or failed Deferred coming from a collaborator\<close>

text \<open>
  A Python float is a double: a finite one is \<open>m * 2 ^ e\<close> for integers \<open>m\<close> and \<open>e\<close>. No
  arithmetic is done on floats here; the text that \<open>str\<close> gives for one is CPython's to
  compute, so a float carries it.
\<close>

datatype pyfloat = PyFloat (mantissa: int) (exponent: int) (float_str: string)

datatype pyval = VInt int | VStr string | VNone | VFloat pyfloat

text \<open>The decimal digits of a natural number, most significant first.\<close>

fun str_nat :: "nat \<Rightarrow> string" where
  "str_nat n =
     (if n < 10 then [''0123456789'' ! n]
      else str_nat (n div 10) @ [''0123456789'' ! (n mod 10)])"

declare str_nat.simps [simp del]

definition str_int :: "int \<Rightarrow> string" where
  "str_int i = (if i < 0 then CHR ''-'' # str_nat (nat (- i)) else str_nat (nat i))"

text \<open>Python's \<open>str(v)\<close> for the values a message carries.\<close>

fun py_str :: "pyval \<Rightarrow> string" where
  "py_str (VInt i) = str_int i"
| "py_str (VStr s) = s"
| "py_str VNone = ''None''"
| "py_str (VFloat f) = float_str f"

text \<open>A message body is a dict with string keys, kept as an association list and read with
  \<^const>\<open>map_of\<close>.\<close>

type_synonym msg = "(string \<times> pyval) list"

text \<open>\<open>d[k]\<close>: the value, or \<open>KeyError\<close>.\<close>

definition getitem :: "msg \<Rightarrow> string \<Rightarrow> error + pyval" where
  "getitem m k = (case map_of m k of None \<Rightarrow> Inl KeyError | Some v \<Rightarrow> Inr v)"

section \<open>The calls made on collaborators\<close>

text \<open>
  The request store, the build store, the message queue, the status sink, the worker slots
  (\<^verbatim>\<open>slavebuilder.py\<close>) and the \<open>Build\<close> runner are not part of the two source files. Each
  call the source makes on one of them is recorded, in program order, as an \<open>event\<close>; what a
  call returns is given by the environment record \<open>env\<close> below. The two changes that the
  builder makes to its list \<open>building\<close> are recorded with them, so that a trace shows when
  a build is reserved and when the reservation is taken back.
\<close>

type_synonym ref = nat  \<comment> \<open>the identity of a Python object\<close>

datatype results = SUCCESS | WARNINGS | FAILURE | SKIPPED | EXCEPTION | RETRY | CANCELLED

text \<open>Modelled from the spec: \<^verbatim>\<open>buildbot.status.results\<close> is not among the source files; the
  spec lists the terminal results in this order, which is the order of their integer codes.\<close>

fun results_code :: "results \<Rightarrow> int" where
  "results_code SUCCESS = 0"
| "results_code WARNINGS = 1"
| "results_code FAILURE = 2"
| "results_code SKIPPED = 3"
| "results_code EXCEPTION = 4"
| "results_code RETRY = 5"
| "results_code CANCELLED = 6"

record slave =
  slave_ident :: ref        \<comment> \<open>object identity: \<open>s.slave == slave\<close> compares it\<close>
  slavename :: string
  buildslaveid :: int

record buildrequest =
  br_id :: int              \<comment> \<open>\<open>br.id\<close>\<close>
  bsid :: int
  buildername :: string

record build_row =
  row_builderid :: int
  row_buildrequestid :: int
  row_buildslaveid :: int
  row_masterid :: int
  row_state_strings :: "string list"

datatype datetime = Datetime pyfloat  \<comment> \<open>\<open>epoch2datetime(epoch)\<close>\<close>

datatype event =
    LogMsg string
  | LogErr string
  | Produce "string list" msg                         \<comment> \<open>\<open>master.mq.produce(routingKey, msg)\<close>\<close>
  | FindBuilderId string                              \<comment> \<open>\<open>master.data.updates.findBuilderId\<close>\<close>
  | MaybeBuildsetComplete int                         \<comment> \<open>\<open>master.data.updates.maybeBuildsetComplete\<close>\<close>
  | BuilderAdded string string string string          \<comment> \<open>\<open>master.status.builderAdded\<close>\<close>
  | SetDescription string
  | SetCategory string
  | SetSlavenames "string list"
  | SetCacheSize int
  | AddPointEvent "string list"
  | SetBigState string
  | StatusNewBuild                                    \<comment> \<open>\<open>builder_status.newBuild()\<close>\<close>
  | StatusBuildStarted int string                     \<comment> \<open>\<open>master.status.build_started\<close>\<close>
  | SlaveBuilderAttached ref slave                    \<comment> \<open>\<open>sb.attached(slave, commands)\<close>\<close>
  | SlaveBuilderDetached ref                          \<comment> \<open>\<open>sb.detached()\<close>\<close>
  | Prepare ref ref                                   \<comment> \<open>\<open>slavebuilder.prepare(status, build)\<close>\<close>
  | Ping ref                                          \<comment> \<open>\<open>slavebuilder.ping()\<close>\<close>
  | SlaveBuilderBuildStarted ref                      \<comment> \<open>\<open>slavebuilder.buildStarted()\<close>\<close>
  | SlaveBuilderBuildFinished ref                     \<comment> \<open>\<open>slavebuilder.buildFinished()\<close>\<close>
  | RemoteStartBuild string                           \<comment> \<open>\<open>slave.conn.remoteStartBuild(name)\<close>\<close>
  | ReleaseLocks slave                                \<comment> \<open>\<open>slave.releaseLocks()\<close>\<close>
  | NewBuild ref "buildrequest list"                  \<comment> \<open>\<open>config.factory.newBuild(requests)\<close>\<close>
  | SetLocks ref "string list"                        \<comment> \<open>\<open>build.setLocks(config.locks)\<close>\<close>
  | SetSlaveEnvironment ref "(string \<times> string) list"   \<comment> \<open>\<open>build.setSlaveEnvironment\<close>\<close>
  | StartBuild ref ref                                \<comment> \<open>\<open>build.startBuild(bs, expectations, sb)\<close>\<close>
  | AddBuild build_row                                \<comment> \<open>\<open>master.db.builds.addBuild\<close>\<close>
  | FinishBuild int results                           \<comment> \<open>\<open>master.db.builds.finishBuild\<close>\<close>
  | CompleteBuildRequests "int list" results datetime \<comment> \<open>\<open>db.buildrequests.completeBuildRequests\<close>\<close>
  | UnclaimBuildRequests "int list"                   \<comment> \<open>\<open>db.buildrequests.unclaimBuildRequests\<close>\<close>
  | BuildingAppend ref                                \<comment> \<open>\<open>self.building.append(build)\<close>\<close>
  | BuildingRemove ref                                \<comment> \<open>\<open>self.building.remove(build)\<close>, done\<close>

section \<open>\<open>ResourceType.produceEvent\<close> (data/base.py)\<close>

record resource_type =
  rt_name :: string
  keyFields :: "string list"

text \<open>The generator \<open>str(msg[k]) for k in self.keyFields\<close>: it stops at the first missing
  key with \<open>KeyError\<close>.\<close>

fun key_strings :: "msg \<Rightarrow> string list \<Rightarrow> error + string list" where
  "key_strings m [] = Inr []"
| "key_strings m (k # ks) =
     (case getitem m k of
        Inl err \<Rightarrow> Inl err
      | Inr v \<Rightarrow>
          (case key_strings m ks of
             Inl err \<Rightarrow> Inl err
           | Inr vs \<Rightarrow> Inr (py_str v # vs)))"

definition produceEvent :: "resource_type \<Rightarrow> msg \<Rightarrow> string \<Rightarrow> error + event list" where
  "produceEvent rt m ev =
     (case key_strings m (keyFields rt) of
        Inl err \<Rightarrow> Inl err
      | Inr ks \<Rightarrow> Inr [Produce ([rt_name rt] @ ks @ [ev]) m])"

section \<open>The \<open>Builder\<close> object (process/builder.py)\<close>

record builder_config =
  bc_name :: string
  bc_slavenames :: "string list"
  bc_builddir :: string
  bc_category :: string
  bc_description :: string
  bc_locks :: "string list"
  bc_env :: "(string \<times> string) list"

record master_config =
  builders :: "builder_config list"
  caches_Builds :: int                 \<comment> \<open>\<open>new_config.caches['Builds']\<close>\<close>

text \<open>
  A \<open>Build\<close> as far as the builder reads it: its requests and what
  \<open>build.build_status.getResults()\<close> returns (\<open>None\<close> while \<open>build_status\<close> is unset).
\<close>

record build =
  requests :: "buildrequest list"
  build_status :: "results option"

text \<open>
  The lists \<open>building\<close>, \<open>attaching_slaves\<close> and \<open>slaves\<close> hold references: Python compares
  \<open>Build\<close> and \<open>SlaveBuilder\<close> objects by identity. \<open>old_building\<close> is a weak-keyed dict of
  which only the keys are read. The fields of the referenced objects live in the two stores
  \<open>builds\<close> and \<open>sb_slave\<close> (the \<open>.slave\<close> attribute of a \<open>SlaveBuilder\<close>, \<open>None\<close> when unset).
\<close>

record builder =
  name :: string
  builderid :: "int option"            \<comment> \<open>\<open>self._builderid\<close>\<close>
  building :: "ref list"
  old_building :: "ref list"
  attaching_slaves :: "ref list"
  slaves :: "ref list"
  config :: "builder_config option"
  builder_status :: bool               \<comment> \<open>whether \<open>self.builder_status\<close> is set\<close>
  running :: bool
  builds :: "ref \<Rightarrow> build option"
  sb_slave :: "ref \<Rightarrow> slave option"

text \<open>
  What the collaborators answer during one call. A call that the source guards (a \<open>try\<close>
  block or an errback) or that returns a Deferred may fail: its answer is \<open>Inl\<close> then.
  The methods run on one event loop. While \<open>_startBuildFor\<close> waits for the worker or for
  the build store, the loop may run other methods of the builder (\<open>detached\<close>, \<open>attached\<close>,
  a reconfiguration): \<open>during_prepare\<close>, \<open>during_ping\<close>, \<open>during_remoteStartBuild\<close> and
  \<open>during_addBuild\<close> give what they have made of the builder when the call resumes.
\<close>

record env =
  masterid :: int                                  \<comment> \<open>\<open>self.master.masterid\<close>\<close>
  findBuilderId :: "string \<Rightarrow> error + int"
  sb_attached :: "error + unit"                    \<comment> \<open>the handshake of \<open>sb.attached\<close>\<close>
  setBigState :: "error + unit"
  factory_newBuild :: "error + unit"               \<comment> \<open>the configured factory may raise\<close>
  prepare :: "error + bool"
  ping :: "error + bool"
  remoteStartBuild :: "error + unit"
  addBuild :: "error + (int \<times> int)"
  conn_after_addBuild :: bool                      \<comment> \<open>\<open>slavebuilder.slave.conn\<close> read after \<open>addBuild\<close>\<close>
  finishBuild :: "error + unit"
  completeBuildRequests :: "error + unit"
  unclaimBuildRequests :: "error + unit"
  maybeBuildsetComplete :: "int \<Rightarrow> error + unit"
  seconds :: pyfloat                               \<comment> \<open>\<open>reactor.seconds()\<close>\<close>
  during_prepare :: "builder \<Rightarrow> builder"
  during_ping :: "builder \<Rightarrow> builder"
  during_remoteStartBuild :: "builder \<Rightarrow> builder"
  during_addBuild :: "builder \<Rightarrow> builder"

text \<open>\<open>xs.remove(x)\<close>: the first occurrence goes, \<open>ValueError\<close> when there is none.\<close>

definition list_remove :: "'a \<Rightarrow> 'a list \<Rightarrow> error + 'a list" where
  "list_remove x xs = (if x \<in> set xs then Inr (remove1 x xs) else Inl ValueError)"

text \<open>A newly constructed object is distinct from every object the lists still hold.\<close>

definition new_ref :: "ref list \<Rightarrow> ref" where
  "new_ref live = Suc (fold max live 0)"

subsection \<open>\<open>getBuilderId\<close>\<close>

text \<open>\<open>if self._builderid:\<close> is false for \<open>None\<close> and for \<open>0\<close>.\<close>

definition getBuilderId :: "env \<Rightarrow> builder \<Rightarrow> (error + int) \<times> builder \<times> event list" where
  "getBuilderId e s =
     (case builderid s of
        Some b \<Rightarrow>
          if b \<noteq> 0 then (Inr b, s, [])
          else (case findBuilderId e (name s) of
                  Inl err \<Rightarrow> (Inl err, s, [FindBuilderId (name s)])
                | Inr b' \<Rightarrow> (Inr b', s\<lparr>builderid := Some b'\<rparr>, [FindBuilderId (name s)]))
      | None \<Rightarrow>
          (case findBuilderId e (name s) of
             Inl err \<Rightarrow> (Inl err, s, [FindBuilderId (name s)])
           | Inr b' \<Rightarrow> (Inr b', s\<lparr>builderid := Some b'\<rparr>, [FindBuilderId (name s)])))"

subsection \<open>\<open>updateBigStatus\<close>\<close>

text \<open>The body of the \<open>try\<close> block: it raises when \<open>setBigState\<close> does.\<close>

definition updateBigStatus_try :: "env \<Rightarrow> builder \<Rightarrow> (error + unit) \<times> event list" where
  "updateBigStatus_try e s =
     (if \<not> builder_status s then (Inr (), [])
      else if slaves s = [] then (setBigState e, [SetBigState ''offline''])
      else if building s \<noteq> [] \<or> old_building s \<noteq> [] then (setBigState e, [SetBigState ''building''])
      else (setBigState e, [SetBigState ''idle'']))"

definition updateBigStatus :: "env \<Rightarrow> builder \<Rightarrow> (error + unit) \<times> event list" where
  "updateBigStatus e s =
     (case updateBigStatus_try e s of
        (Inl err, evs) \<Rightarrow> (Inr (), evs @ [LogErr ''while trying to update status of builder''])
      | (Inr u, evs) \<Rightarrow> (Inr (), evs))"

subsection \<open>\<open>attached\<close>, \<open>_attached\<close>, \<open>_not_attached\<close>\<close>

text \<open>The slots in \<open>self.attaching_slaves + self.slaves\<close> and the first of them whose
  \<open>.slave\<close> is the given one.\<close>

definition find_slot :: "builder \<Rightarrow> slave \<Rightarrow> ref option" where
  "find_slot s w = find (\<lambda>r. sb_slave s r = Some w) (attaching_slaves s @ slaves s)"

text \<open>\<open>_not_attached(why, slave)\<close>: the failure is logged and consumed; an unset
  \<open>builder_status\<close> makes \<open>addPointEvent\<close> an \<open>AttributeError\<close>.\<close>

definition not_attached :: "slave \<Rightarrow> builder \<Rightarrow> (error + unit) \<times> builder \<times> event list" where
  "not_attached w s =
     (if \<not> builder_status s then (Inl AttributeError, s, [LogErr ''slave failed to attach''])
      else (Inr (), s,
            [LogErr ''slave failed to attach'', AddPointEvent [''failed'', ''connect'', slavename w]]))"

text \<open>\<open>_attached(sb)\<close>; an exception in it is the errback's to handle.\<close>

definition attached_cb :: "env \<Rightarrow> ref \<Rightarrow> builder \<Rightarrow> (error + unit) \<times> builder \<times> event list" where
  "attached_cb e sb s =
     (if \<not> builder_status s then (Inl AttributeError, s, [])
      else (case sb_slave s sb of
              None \<Rightarrow> (Inl AttributeError, s, [])
            | Some w \<Rightarrow>
                (case list_remove sb (attaching_slaves s) of
                   Inl err \<Rightarrow> (Inl err, s, [AddPointEvent [''connect'', slavename w]])
                 | Inr att \<Rightarrow>
                     (let s' = s\<lparr>attaching_slaves := att, slaves := slaves s @ [sb]\<rparr>
                      in (Inr (), s',
                          AddPointEvent [''connect'', slavename w] # snd (updateBigStatus e s'))))))"

text \<open>
  Modelled from the spec: \<open>SlaveBuilder.attached\<close> is in \<^verbatim>\<open>slavebuilder.py\<close>, which is not
  among the source files. A slot holds a reference to its worker, and the constructor
  \<open>SlaveBuilder()\<close> takes none, so \<open>sb.attached(slave, commands)\<close> binds \<open>sb.slave\<close>; its
  handshake then succeeds or fails as the environment says.
\<close>

definition attached :: "env \<Rightarrow> slave \<Rightarrow> builder \<Rightarrow> (error + unit) \<times> builder \<times> event list" where
  "attached e w s =
     (case find_slot s w of
        Some r \<Rightarrow> (Inr (), s, [])
      | None \<Rightarrow>
          (let sb = new_ref (attaching_slaves s @ slaves s);
               s1 = s\<lparr>attaching_slaves := attaching_slaves s @ [sb],
                      sb_slave := (sb_slave s)(sb := Some w)\<rparr>;
               ev = SlaveBuilderAttached sb w
           in (case sb_attached e of
                 Inl err \<Rightarrow>
                   (case not_attached w s1 of (r, s2, evs) \<Rightarrow> (r, s2, ev # evs))
               | Inr u \<Rightarrow>
                   (case attached_cb e sb s1 of
                      (Inr u', s2, evs) \<Rightarrow> (Inr (), s2, ev # evs)
                    | (Inl err, s2, evs) \<Rightarrow>
                        (case not_attached w s2 of (r, s3, evs') \<Rightarrow> (r, s3, ev # evs @ evs'))))))"

subsection \<open>\<open>detached\<close>\<close>

text \<open>The test \<open>sb.state == BUILDING\<close> guards a \<open>pass\<close> and changes nothing.\<close>

definition detached :: "env \<Rightarrow> slave \<Rightarrow> builder \<Rightarrow> (error + unit) \<times> builder \<times> event list" where
  "detached e w s =
     (case find_slot s w of
        None \<Rightarrow> (Inr (), s, [LogMsg ''WEIRD: Builder.detached not in attaching_slaves or slaves''])
      | Some sb \<Rightarrow>
          (let s1 = (if sb \<in> set (attaching_slaves s)
                     then s\<lparr>attaching_slaves := remove1 sb (attaching_slaves s)\<rparr> else s);
               s2 = (if sb \<in> set (slaves s1)
                     then s1\<lparr>slaves := remove1 sb (slaves s1)\<rparr> else s1)
           in if \<not> builder_status s2 then (Inl AttributeError, s2, [])
              else (Inr (), s2,
                    [AddPointEvent [''disconnect'', slavename w], SlaveBuilderDetached sb]
                    @ snd (updateBigStatus e s2))))"

subsection \<open>\<open>reconfigService\<close>\<close>

text \<open>The list comprehension over \<open>self.slaves\<close>: \<open>s.slave.slavename\<close> is an
  \<open>AttributeError\<close> for a slot whose \<open>.slave\<close> is \<open>None\<close>.\<close>

fun keep_configured :: "(ref \<Rightarrow> slave option) \<Rightarrow> string list \<Rightarrow> ref list \<Rightarrow> error + ref list" where
  "keep_configured sl names [] = Inr []"
| "keep_configured sl names (r # rs) =
     (case sl r of
        None \<Rightarrow> Inl AttributeError
      | Some w \<Rightarrow>
          (case keep_configured sl names rs of
             Inl err \<Rightarrow> Inl err
           | Inr rs' \<Rightarrow> Inr (if slavename w \<in> set names then r # rs' else rs')))"

text \<open>When no builder of the new configuration has this name the \<open>assert\<close> reads the
  unassigned \<open>found_config\<close>.\<close>

definition reconfigService ::
  "env \<Rightarrow> master_config \<Rightarrow> builder \<Rightarrow> (error + unit) \<times> builder \<times> event list" where
  "reconfigService e new_config s =
     (case find (\<lambda>bc. bc_name bc = name s) (builders new_config) of
        None \<Rightarrow> (Inl UnboundLocalError, s, [])
      | Some bc \<Rightarrow>
          (let evs1 = (if \<not> builder_status s
                       then [BuilderAdded (bc_name bc) (bc_builddir bc) (bc_category bc)
                               (bc_description bc)]
                       else []);
               s1 = s\<lparr>builder_status := True, config := Some bc\<rparr>
           in (case getBuilderId e s1 of
                 (Inl err, s2, evs2) \<Rightarrow> (Inl err, s2, evs1 @ evs2)
               | (Inr b, s2, evs2) \<Rightarrow>
                   (let evs3 = [SetDescription (bc_description bc), SetCategory (bc_category bc),
                                SetSlavenames (bc_slavenames bc),
                                SetCacheSize (caches_Builds new_config)]
                    in (case keep_configured (sb_slave s2) (bc_slavenames bc) (slaves s2) of
                          Inl err \<Rightarrow> (Inl err, s2, evs1 @ evs2 @ evs3)
                        | Inr kept \<Rightarrow> (Inr (), s2\<lparr>slaves := kept\<rparr>, evs1 @ evs2 @ evs3))))))"

subsection \<open>\<open>_startBuildFor\<close> and its cleanup stack\<close>

text \<open>
  The closures pushed on \<open>cleanups\<close>, in the order of their appearance in the source:
  \<open>self.updateBigStatus()\<close>, \<open>slavebuilder.slave.releaseLocks()\<close>,
  \<open>self.building.remove(build)\<close> and \<open>slavebuilder.buildFinished()\<close>.
\<close>

datatype cleanup =
    CUpdateBigStatus
  | CReleaseLocks ref
  | CRemoveBuild ref
  | CBuildFinished ref

text \<open>
  Modelled from the spec: \<open>releaseLocks\<close>, \<open>buildStarted\<close> and \<open>buildFinished\<close> belong to
  files that are not among the sources; the spec has them as plain state transitions of the
  slot and of the worker's locks, so they are calls that return. What can raise in a closure
  is what the builder itself does: reading \<open>.slave\<close> of a slot that has none, and removing a
  build that \<open>building\<close> does not hold.
\<close>

fun run_cleanup :: "env \<Rightarrow> cleanup \<Rightarrow> builder \<Rightarrow> (error + unit) \<times> builder \<times> event list" where
  "run_cleanup e CUpdateBigStatus s = (Inr (), s, snd (updateBigStatus e s))"
| "run_cleanup e (CReleaseLocks sb) s =
     (case sb_slave s sb of
        None \<Rightarrow> (Inl AttributeError, s, [])
      | Some w \<Rightarrow> (Inr (), s, [ReleaseLocks w]))"
| "run_cleanup e (CRemoveBuild b) s =
     (case list_remove b (building s) of
        Inl err \<Rightarrow> (Inl err, s, [])
      | Inr bs \<Rightarrow> (Inr (), s\<lparr>building := bs\<rparr>, [BuildingRemove b]))"
| "run_cleanup e (CBuildFinished sb) s = (Inr (), s, [SlaveBuilderBuildFinished sb])"

text \<open>The loop \<open>while cleanups: fn = cleanups.pop(); fn()\<close>, given the closures in the order
  they are popped. The \<open>try\<close> is around the whole loop: the first closure that raises ends
  it.\<close>

fun run_popped :: "env \<Rightarrow> cleanup list \<Rightarrow> builder \<Rightarrow> builder \<times> event list" where
  "run_popped e [] s = (s, [])"
| "run_popped e (c # cs) s =
     (case run_cleanup e c s of
        (Inl err, s', evs) \<Rightarrow> (s', evs @ [LogErr ''while running run_cleanups''])
      | (Inr u, s', evs) \<Rightarrow>
          (case run_popped e cs s' of (s'', evs') \<Rightarrow> (s'', evs @ evs')))"

text \<open>\<open>list.pop()\<close> takes the last element: the stack is run from its end.\<close>

definition run_cleanups :: "env \<Rightarrow> cleanup list \<Rightarrow> builder \<Rightarrow> builder \<times> event list" where
  "run_cleanups e cleanups s = run_popped e (rev cleanups) s"

text \<open>\<open>run_cleanups(); defer.returnValue(False)\<close> after the events so far.\<close>

definition abort_start ::
  "env \<Rightarrow> cleanup list \<Rightarrow> builder \<Rightarrow> event list \<Rightarrow> (error + bool) \<times> builder \<times> event list" where
  "abort_start e cleanups s evs =
     (case run_cleanups e cleanups s of (s', evc) \<Rightarrow> (Inr False, s', evs @ evc))"

text \<open>What a guarded call that answers a truth value leaves in the local variable: the
  \<open>except\<close> branch logs and stores \<open>False\<close>.\<close>

definition guarded :: "error + bool \<Rightarrow> string \<Rightarrow> bool \<times> event list" where
  "guarded r m = (case r of Inl err \<Rightarrow> (False, [LogErr m]) | Inr v \<Rightarrow> (v, []))"

text \<open>
  From \<open>slavebuilder.buildStarted()\<close> to the end of \<open>_startBuildFor\<close>. \<open>w\<close> is the
  \<open>slavebuilder.slave\<close> that was read for \<open>buildslaveid\<close> when the call began, \<open>b\<close> the new
  build, \<open>rs\<close> its requests (nothing in the source assigns \<open>build.requests\<close>), \<open>bid\<close> the
  builder id. \<open>slavebuilder.slave\<close> is read again for \<open>remoteStartBuild\<close>, inside the \<open>try\<close>,
  and for the test of \<open>conn\<close>, outside every \<open>try\<close>, as is \<open>builder_status.newBuild()\<close>: an
  \<open>AttributeError\<close> there leaves the function and no cleanup runs.
\<close>

definition start_handoff ::
  "env \<Rightarrow> ref \<Rightarrow> slave \<Rightarrow> ref \<Rightarrow> buildrequest list \<Rightarrow> int \<Rightarrow> cleanup list \<Rightarrow> builder
     \<Rightarrow> (error + bool) \<times> builder \<times> event list" where
  "start_handoff e sb w b rs bid cleanups0 s =
     (let cleanups = cleanups0 @ [CBuildFinished sb];
          ev1 = [SlaveBuilderBuildStarted sb]
      in (case sb_slave s sb of
            None \<Rightarrow> abort_start e cleanups s (ev1 @ [LogErr ''while calling remote startBuild:''])
          | Some w1 \<Rightarrow>
              (let ev2 = ev1 @ [RemoteStartBuild (name s)];
                   s1 = during_remoteStartBuild e s
               in (case remoteStartBuild e of
                     Inl err \<Rightarrow>
                       abort_start e cleanups s1 (ev2 @ [LogErr ''while calling remote startBuild:''])
                   | Inr u \<Rightarrow>
                       if \<not> builder_status s1 then (Inl AttributeError, s1, ev2)
                       else (case rs of
                               [] \<Rightarrow> abort_start e cleanups s1
                                       (ev2 @ [StatusNewBuild,
                                               LogErr ''while adding rows to build table:''])
                             | _ # _ \<Rightarrow>
                                 (let req = last rs;
                                      row = \<lparr>row_builderid = bid, row_buildrequestid = br_id req,
                                             row_buildslaveid = buildslaveid w,
                                             row_masterid = masterid e,
                                             row_state_strings = [''created'']\<rparr>;
                                      ev3 = ev2 @ [StatusNewBuild, AddBuild row];
                                      s2 = during_addBuild e s1
                                  in (case addBuild e of
                                        Inl err \<Rightarrow>
                                          abort_start e cleanups s2
                                            (ev3 @ [LogErr ''while adding rows to build table:''])
                                      | Inr bid_number \<Rightarrow>
                                          (case sb_slave s2 sb of
                                             None \<Rightarrow> (Inl AttributeError, s2, ev3)
                                           | Some w2 \<Rightarrow>
                                               if \<not> conn_after_addBuild e
                                               then abort_start e cleanups s2
                                                      (ev3 @ [LogMsg ''slave disappeared before build could start''])
                                               else (Inr True, s2,
                                                     ev3 @ [StatusBuildStarted (br_id req) (name s2),
                                                            StartBuild b sb]
                                                     @ snd (updateBigStatus e s2))))))))))"

text \<open>From \<open>slavebuilder.prepare\<close> to the ping.\<close>

definition start_on_slave ::
  "env \<Rightarrow> ref \<Rightarrow> slave \<Rightarrow> ref \<Rightarrow> buildrequest list \<Rightarrow> int \<Rightarrow> cleanup list \<Rightarrow> builder
     \<Rightarrow> (error + bool) \<times> builder \<times> event list" where
  "start_on_slave e sb w b rs bid cleanups s =
     (let s1 = during_prepare e s
      in (case guarded (prepare e) ''while preparing slavebuilder:'' of
            (ready, evp) \<Rightarrow>
              if \<not> ready
              then abort_start e cleanups s1
                     (Prepare sb b # evp
                      @ [LogMsg ''slave cannot build after all; re-queueing the request''])
              else (let s2 = during_ping e s1
                    in (case guarded (ping e) ''while pinging slave before build:'' of
                          (ping_success, evq) \<Rightarrow>
                            (let ev = Prepare sb b # evp
                                      @ [LogMsg ''starting build.. pinging the slave'', Ping sb] @ evq
                             in if \<not> ping_success
                                then abort_start e cleanups s2
                                       (ev @ [LogMsg ''slave ping failed; re-queueing the request''])
                                else (case start_handoff e sb w b rs bid cleanups s2 of
                                        (r, s', evs) \<Rightarrow> (r, s', ev @ evs)))))))"

text \<open>
  Modelled from the spec: the \<open>Build\<close> class and the configured factory are not among the
  source files; \<open>factory.newBuild(requests)\<close> constructs a build that holds the given requests
  and has no status yet.
\<close>

definition newBuild :: "buildrequest list \<Rightarrow> build" where
  "newBuild rs = \<lparr>requests = rs, build_status = None\<rparr>"

definition startBuildFor ::
  "env \<Rightarrow> ref \<Rightarrow> buildrequest list \<Rightarrow> builder \<Rightarrow> (error + bool) \<times> builder \<times> event list" where
  "startBuildFor e sb rs s =
     (case sb_slave s sb of
        None \<Rightarrow> (Inl AttributeError, s, [])
      | Some w \<Rightarrow>
          (case getBuilderId e s of
             (Inl err, s1, ev1) \<Rightarrow> (Inl err, s1, ev1)
           | (Inr bid1, s1, ev1) \<Rightarrow>
               (case getBuilderId e s1 of
                  (Inl err, s2, ev2) \<Rightarrow> (Inl err, s2, ev1 @ ev2)
                | (Inr bid, s2, ev2) \<Rightarrow>
                    (case config s2 of
                       None \<Rightarrow> (Inl AttributeError, s2, ev1 @ ev2)
                     | Some cfg \<Rightarrow>
                         (let b = new_ref (building s2 @ old_building s2)
                          in (case factory_newBuild e of
                                Inl err \<Rightarrow> (Inl err, s2, ev1 @ ev2 @ [NewBuild b rs])
                              | Inr u \<Rightarrow>
                                  (let ev3 = [NewBuild b rs, LogMsg ''starting build'',
                                              SetLocks b (bc_locks cfg)]
                                             @ (if length (bc_env cfg) > 0
                                                then [SetSlaveEnvironment b (bc_env cfg)] else [])
                                             @ [BuildingAppend b];
                                       s3 = s2\<lparr>builds := (builds s2)(b := Some (newBuild rs)),
                                              building := building s2 @ [b]\<rparr>;
                                       ev4 = snd (updateBigStatus e s3);
                                       cleanups = [CUpdateBigStatus, CReleaseLocks sb, CRemoveBuild b]
                                   in (case start_on_slave e sb w b rs bid cleanups s3 of
                                         (r, s', evs) \<Rightarrow>
                                           (r, s', ev1 @ ev2 @ ev3 @ ev4 @ evs)))))))))"

subsection \<open>\<open>maybeStartBuild\<close>\<close>

definition maybeStartBuild ::
  "env \<Rightarrow> ref \<Rightarrow> buildrequest list \<Rightarrow> builder \<Rightarrow> (error + bool) \<times> builder \<times> event list" where
  "maybeStartBuild e sb breqs s =
     (if \<not> running s then (Inr False, s, []) else startBuildFor e sb breqs s)"

subsection \<open>\<open>buildFinished\<close>, \<open>_notify_completions\<close>, \<open>_resubmit_buildreqs\<close>\<close>

text \<open>The key and the body of the message \<open>_notify_completions\<close> sends for one request.\<close>

definition complete_key :: "int \<Rightarrow> buildrequest \<Rightarrow> string list" where
  "complete_key bid br =
     [''buildrequest'', py_str (VInt (bsid br)), py_str (VInt bid), py_str (VInt (br_id br)),
      ''complete'']"

definition complete_body :: "int \<Rightarrow> results \<Rightarrow> pyfloat \<Rightarrow> buildrequest \<Rightarrow> msg" where
  "complete_body bid res complete_at_epoch br =
     [(''brid'', VInt (br_id br)), (''bsid'', VInt (bsid br)),
      (''buildername'', VStr (buildername br)), (''builderid'', VInt bid),
      (''complete_at'', VFloat complete_at_epoch), (''results'', VInt (results_code res))]"

text \<open>The second loop: one call for each request whose bsid has not been seen; a failing
  call ends the generator.\<close>

fun check_buildsets :: "env \<Rightarrow> int list \<Rightarrow> buildrequest list \<Rightarrow> (error + unit) \<times> event list" where
  "check_buildsets e seen_bsids [] = (Inr (), [])"
| "check_buildsets e seen_bsids (br # brs) =
     (if bsid br \<in> set seen_bsids then check_buildsets e seen_bsids brs
      else (case maybeBuildsetComplete e (bsid br) of
              Inl err \<Rightarrow> (Inl err, [MaybeBuildsetComplete (bsid br)])
            | Inr u \<Rightarrow>
                (case check_buildsets e (bsid br # seen_bsids) brs of
                   (r, evs) \<Rightarrow> (r, MaybeBuildsetComplete (bsid br) # evs))))"

definition notify_completions ::
  "env \<Rightarrow> buildrequest list \<Rightarrow> results \<Rightarrow> pyfloat \<Rightarrow> builder
     \<Rightarrow> (error + unit) \<times> builder \<times> event list" where
  "notify_completions e rs res complete_at_epoch s =
     (case getBuilderId e s of
        (Inl err, s1, ev1) \<Rightarrow> (Inl err, s1, ev1)
      | (Inr bid, s1, ev1) \<Rightarrow>
          (let ev2 = map (\<lambda>br. Produce (complete_key bid br)
                                  (complete_body bid res complete_at_epoch br)) rs
           in (case check_buildsets e [] rs of
                 (r, ev3) \<Rightarrow> (r, s1, ev1 @ ev2 @ ev3))))"

text \<open>The callback \<open>notify\<close> calls \<open>self._msg_buildrequests_unclaimed\<close>, a method that
  \<open>Builder\<close> does not have (the source marks it: "XXX method does not exist"): once the
  requests are unclaimed the Deferred fails with \<open>AttributeError\<close>.\<close>

definition resubmit_buildreqs :: "env \<Rightarrow> buildrequest list \<Rightarrow> (error + unit) \<times> event list" where
  "resubmit_buildreqs e rs =
     (let brids = map br_id rs
      in (case unclaimBuildRequests e of
            Inl err \<Rightarrow> (Inl err, [UnclaimBuildRequests brids])
          | Inr u \<Rightarrow> (Inl AttributeError, [UnclaimBuildRequests brids])))"

text \<open>The branch on \<open>results == RETRY\<close>; every failure of either chain goes to
  \<open>log.err\<close>.\<close>

definition close_requests ::
  "env \<Rightarrow> buildrequest list \<Rightarrow> results \<Rightarrow> builder \<Rightarrow> builder \<times> event list" where
  "close_requests e rs res s =
     (if res = RETRY
      then (case resubmit_buildreqs e rs of
              (Inl err, evs) \<Rightarrow> (s, evs @ [LogErr ''while resubmitting a build request''])
            | (Inr u, evs) \<Rightarrow> (s, evs))
      else (let complete_at_epoch = seconds e;
                ev1 = [CompleteBuildRequests (map br_id rs) res (Datetime complete_at_epoch)]
            in (case completeBuildRequests e of
                  Inl err \<Rightarrow> (s, ev1 @ [LogErr ''while marking build requests as completed''])
                | Inr u \<Rightarrow>
                    (case notify_completions e rs res complete_at_epoch s of
                       (Inl err, s', evs) \<Rightarrow>
                         (s', ev1 @ evs @ [LogErr ''while marking build requests as completed''])
                     | (Inr u', s', evs) \<Rightarrow> (s', ev1 @ evs)))))"

text \<open>
  \<open>buildFinished(build, sb, bids)\<close>. Each Deferred is taken to fire at once, so its callbacks
  run before the statement that follows it in the source.
\<close>

definition buildFinished ::
  "env \<Rightarrow> ref \<Rightarrow> ref \<Rightarrow> int list \<Rightarrow> builder \<Rightarrow> (error + unit) \<times> builder \<times> event list" where
  "buildFinished e b sb bids s =
     (case builds s b of
        None \<Rightarrow> (Inl AttributeError, s, [])
      | Some bld \<Rightarrow>
          (case build_status bld of
             None \<Rightarrow> (Inl AttributeError, s, [])
           | Some res \<Rightarrow>
               (case bids of
                  [] \<Rightarrow> (Inl IndexError, s, [])
                | bid # _ \<Rightarrow>
                    (let ev1 = FinishBuild bid res #
                               (case finishBuild e of
                                  Inl err \<Rightarrow> [LogErr ''while marking builds as finished (ignored)'']
                                | Inr u \<Rightarrow> [])
                     in (case list_remove b (building s) of
                           Inl err \<Rightarrow> (Inl err, s, ev1)
                         | Inr bs \<Rightarrow>
                             (case close_requests e (requests bld) res (s\<lparr>building := bs\<rparr>) of
                                (s2, ev2) \<Rightarrow>
                                  (let ev3 = (case sb_slave s2 sb of
                                                None \<Rightarrow> []
                                              | Some w \<Rightarrow> [ReleaseLocks w])
                                   in (Inr (), s2,
                                       ev1 @ [BuildingRemove b] @ ev2 @ ev3
                                       @ snd (updateBigStatus e s2)))))))))"

text \<open>
  Modelled from the spec: the request store is not among the source files. Its set of
  claimed request ids loses the ids of an \<open>unclaimBuildRequests\<close> or a
  \<open>completeBuildRequests\<close> call that succeeds and is untouched by every other call of the
  builder.
\<close>

fun claimed_after :: "env \<Rightarrow> event list \<Rightarrow> int set \<Rightarrow> int set" where
  "claimed_after e [] c = c"
| "claimed_after e (UnclaimBuildRequests ids # evs) c =
     claimed_after e evs (case unclaimBuildRequests e of Inl err \<Rightarrow> c | Inr u \<Rightarrow> c - set ids)"
| "claimed_after e (CompleteBuildRequests ids res t # evs) c =
     claimed_after e evs (case completeBuildRequests e of Inl err \<Rightarrow> c | Inr u \<Rightarrow> c - set ids)"
| "claimed_after e (ev # evs) c = claimed_after e evs c"

section \<open>Reading a state and a trace\<close>

text \<open>The slots of the registry (both collections) that reference a worker.\<close>

definition slots_of :: "builder \<Rightarrow> slave \<Rightarrow> ref list" where
  "slots_of s w = filter (\<lambda>r. sb_slave s r = Some w) (attaching_slaves s @ slaves s)"

text \<open>\<open>attached(slave, commands)\<close> called \<open>n\<close> times in a row.\<close>

fun attached_repeat :: "env \<Rightarrow> slave \<Rightarrow> nat \<Rightarrow> builder \<Rightarrow> builder" where
  "attached_repeat e w 0 s = s"
| "attached_repeat e w (Suc n) s = attached_repeat e w n (fst (snd (attached e w s)))"

text \<open>Whether the worker of a slot is named in an allow-list.\<close>

definition slot_configured :: "builder \<Rightarrow> string list \<Rightarrow> ref \<Rightarrow> bool" where
  "slot_configured s names r =
     (case sb_slave s r of None \<Rightarrow> False | Some w \<Rightarrow> slavename w \<in> set names)"

text \<open>The states pushed to the status sink, the rows given to \<open>addBuild\<close>, the messages
  produced, the arguments of \<open>completeBuildRequests\<close> and the identifiers given to
  \<open>maybeBuildsetComplete\<close>, each in trace order.\<close>

fun big_states :: "event list \<Rightarrow> string list" where
  "big_states [] = []"
| "big_states (SetBigState st # evs) = st # big_states evs"
| "big_states (ev # evs) = big_states evs"

fun added_rows :: "event list \<Rightarrow> build_row list" where
  "added_rows [] = []"
| "added_rows (AddBuild row # evs) = row # added_rows evs"
| "added_rows (ev # evs) = added_rows evs"

fun produced :: "event list \<Rightarrow> (string list \<times> msg) list" where
  "produced [] = []"
| "produced (Produce k m # evs) = (k, m) # produced evs"
| "produced (ev # evs) = produced evs"

fun completions :: "event list \<Rightarrow> (int list \<times> results \<times> datetime) list" where
  "completions [] = []"
| "completions (CompleteBuildRequests ids res t # evs) = (ids, res, t) # completions evs"
| "completions (ev # evs) = completions evs"

fun buildset_checks :: "event list \<Rightarrow> int list" where
  "buildset_checks [] = []"
| "buildset_checks (MaybeBuildsetComplete i # evs) = i # buildset_checks evs"
| "buildset_checks (ev # evs) = buildset_checks evs"

text \<open>The calls made on the worker for a build: \<open>prepare\<close>, \<open>ping\<close> and
  \<open>remoteStartBuild\<close>.\<close>

fun worker_calls :: "event list \<Rightarrow> event list" where
  "worker_calls [] = []"
| "worker_calls (Prepare sb b # evs) = Prepare sb b # worker_calls evs"
| "worker_calls (Ping sb # evs) = Ping sb # worker_calls evs"
| "worker_calls (RemoteStartBuild n # evs) = RemoteStartBuild n # worker_calls evs"
| "worker_calls (ev # evs) = worker_calls evs"

text \<open>The commitments that have an inverse on the cleanup stack, with those inverses: the
  locks of the build, its reservation in \<open>building\<close> and the \<open>BUILDING\<close> state of the
  slot.\<close>

fun commitments :: "event list \<Rightarrow> event list" where
  "commitments [] = []"
| "commitments (SetLocks b ls # evs) = SetLocks b ls # commitments evs"
| "commitments (ReleaseLocks w # evs) = ReleaseLocks w # commitments evs"
| "commitments (BuildingAppend b # evs) = BuildingAppend b # commitments evs"
| "commitments (BuildingRemove b # evs) = BuildingRemove b # commitments evs"
| "commitments (SlaveBuilderBuildStarted sb # evs) = SlaveBuilderBuildStarted sb # commitments evs"
| "commitments (SlaveBuilderBuildFinished sb # evs) = SlaveBuilderBuildFinished sb # commitments evs"
| "commitments (ev # evs) = commitments evs"

text \<open>No other method changed the builder while \<open>_startBuildFor\<close> waited.\<close>

definition uninterrupted :: "env \<Rightarrow> bool" where
  "uninterrupted e \<longleftrightarrow>
     during_prepare e = id \<and> during_ping e = id
     \<and> during_remoteStartBuild e = id \<and> during_addBuild e = id"

section \<open>Example configurations\<close>

definition worker1 :: slave where
  "worker1 = \<lparr>slave_ident = 1, slavename = ''w1'', buildslaveid = 11\<rparr>"

definition worker2 :: slave where
  "worker2 = \<lparr>slave_ident = 2, slavename = ''w2'', buildslaveid = 12\<rparr>"

definition config0 :: builder_config where
  "config0 = \<lparr>bc_name = ''compile'', bc_slavenames = [''w1''], bc_builddir = ''compile'',
     bc_category = ''main'', bc_description = ''compiles'', bc_locks = [], bc_env = []\<rparr>"

definition master_config0 :: master_config where
  "master_config0 = \<lparr>builders = [config0], caches_Builds = 15\<rparr>"

text \<open>A running builder ``compile'' with one available slot, for worker ``w1''.\<close>

definition state0 :: builder where
  "state0 = \<lparr>name = ''compile'', builderid = Some 5, building = [], old_building = [],
     attaching_slaves = [], slaves = [1], config = Some config0, builder_status = True,
     running = True, builds = (\<lambda>r. None), sb_slave = (\<lambda>r. None)(1 := Some worker1)\<rparr>"

text \<open>The same builder while its only slot is still attaching.\<close>

definition state_attaching :: builder where
  "state_attaching = state0\<lparr>attaching_slaves := [1], slaves := []\<rparr>"

text \<open>The builder with a second slot, for worker ``w2'', still attaching.\<close>

definition state_two :: builder where
  "state_two = state0\<lparr>attaching_slaves := [2],
     sb_slave := (\<lambda>r. None)(1 := Some worker1, 2 := Some worker2)\<rparr>"

definition req42 :: buildrequest where
  "req42 = \<lparr>br_id = 42, bsid = 7, buildername = ''compile''\<rparr>"

definition req10 :: buildrequest where
  "req10 = \<lparr>br_id = 10, bsid = 3, buildername = ''compile''\<rparr>"

definition req11 :: buildrequest where
  "req11 = \<lparr>br_id = 11, bsid = 3, buildername = ''compile''\<rparr>"

text \<open>The builder with build \<open>1\<close> in flight on slot \<open>1\<close>, finished with the given result.\<close>

definition state_building :: "buildrequest list \<Rightarrow> results \<Rightarrow> builder" where
  "state_building rs res = state0\<lparr>building := [1],
     builds := (\<lambda>r. None)(1 := Some \<lparr>requests = rs, build_status = Some res\<rparr>)\<rparr>"

text \<open>An environment in which every collaborator call succeeds and no wait is interrupted;
  the clock reads 1000.25.\<close>

definition env0 :: env where
  "env0 = \<lparr>masterid = 9, findBuilderId = (\<lambda>n. Inr 5), sb_attached = Inr (),
     setBigState = Inr (), factory_newBuild = Inr (), prepare = Inr True, ping = Inr True,
     remoteStartBuild = Inr (), addBuild = Inr (100, 1), conn_after_addBuild = True,
     finishBuild = Inr (), completeBuildRequests = Inr (), unclaimBuildRequests = Inr (),
     maybeBuildsetComplete = (\<lambda>b. Inr ()), seconds = PyFloat 4001 (- 2) ''1000.25'',
     during_prepare = id, during_ping = id, during_remoteStartBuild = id, during_addBuild = id\<rparr>"

text \<open>
  Modelled from the spec: \<open>SlaveBuilder.detached\<close> is not among the source files; a detached
  slot holds no worker. This is what the builder has become when the worker of slot \<open>sb\<close> was
  lost during a wait: \<open>detached\<close> has taken the slot out of the collections and the slot is
  without its \<open>.slave\<close>.
\<close>

definition slot_lost :: "ref \<Rightarrow> builder \<Rightarrow> builder" where
  "slot_lost sb s =
     s\<lparr>attaching_slaves := remove1 sb (attaching_slaves s), slaves := remove1 sb (slaves s),
       sb_slave := (sb_slave s)(sb := None)\<rparr>"


section \<open>Properties\<close>

subsection \<open>Object identity\<close>

lemma fold_max_ge: "a \<le> fold max xs (a::nat)"
  by (induction xs arbitrary: a) (auto intro: order_trans [OF max.cobounded2])

lemma fold_max_member: "x \<in> set xs \<Longrightarrow> x \<le> fold max xs (a::nat)"
proof (induction xs arbitrary: a)
  case Nil
  then show ?case by simp
next
  case (Cons y ys)
  show ?case
  proof (cases "x = y")
    case True
    have "y \<le> max y a" by simp
    also have "\<dots> \<le> fold max ys (max y a)" by (rule fold_max_ge)
    finally show ?thesis using True by simp
  next
    case False
    with Cons.prems have "x \<in> set ys" by simp
    then show ?thesis using Cons.IH by simp
  qed
qed

lemma new_ref_fresh: "new_ref live \<notin> set live"
proof
  assume "new_ref live \<in> set live"
  then have "new_ref live \<le> fold max live 0" by (rule fold_max_member)
  then show False by (simp add: new_ref_def)
qed

subsection \<open>Routing keys\<close>

lemma key_strings_present:
  "set ks \<subseteq> dom (map_of m) \<Longrightarrow>
   key_strings m ks = Inr (map (\<lambda>k. py_str (the (map_of m k))) ks)"
  by (induction ks) (auto simp: getitem_def split: option.splits)

text \<open>
  C8. For a resource type with name \<open>n\<close> and key fields \<open>k1 .. kn\<close>, all of them keys of the
  message, \<open>produceEvent\<close> publishes the message under the routing key made of \<open>n\<close>, then
  \<open>str(msg[k])\<close> for each key field in order, then the event name.
\<close>

theorem produceEvent_routing_key:
  assumes "set (keyFields rt) \<subseteq> dom (map_of m)"
  shows "produceEvent rt m ev =
         Inr [Produce (rt_name rt # map (\<lambda>k. py_str (the (map_of m k))) (keyFields rt) @ [ev]) m]"
  using key_strings_present [OF assms] by (simp add: produceEvent_def)

theorem produceEvent_routing_key_witness:
  "set (keyFields \<lparr>rt_name = ''buildrequest'', keyFields = [''bsid'', ''builderid'', ''brid'']\<rparr>)
     \<subseteq> dom (map_of [(''brid'', VInt 42), (''bsid'', VInt 7), (''builderid'', VInt 3)])
   \<and> produceEvent \<lparr>rt_name = ''buildrequest'', keyFields = [''bsid'', ''builderid'', ''brid'']\<rparr>
        [(''brid'', VInt 42), (''bsid'', VInt 7), (''builderid'', VInt 3)] ''complete''
      = Inr [Produce [''buildrequest'', ''7'', ''3'', ''42'', ''complete'']
               [(''brid'', VInt 42), (''bsid'', VInt 7), (''builderid'', VInt 3)]]"
  using produceEvent_routing_key
    [of "\<lparr>rt_name = ''buildrequest'', keyFields = [''bsid'', ''builderid'', ''brid'']\<rparr>"
        "[(''brid'', VInt 42), (''bsid'', VInt 7), (''builderid'', VInt 3)]" "''complete''"]
  by (simp add: str_int_def str_nat.simps)

subsection \<open>The worker registry\<close>

lemma find_slot_None:
  "find_slot s w = None \<longleftrightarrow> (\<forall>r \<in> set (attaching_slaves s @ slaves s). sb_slave s r \<noteq> Some w)"
  by (auto simp: find_slot_def find_None_iff)

lemma find_slot_Some:
  "\<exists>r \<in> set (attaching_slaves s @ slaves s). sb_slave s r = Some w \<Longrightarrow>
   \<exists>r. find_slot s w = Some r"
  by (cases "find_slot s w") (auto simp: find_slot_def find_None_iff)

text \<open>
  C9. \<open>detached(slave)\<close> for a worker that no slot of \<open>attaching_slaves\<close> or \<open>slaves\<close>
  references returns normally, leaves the whole builder state as it was and makes no call
  but one log line: no \<open>disconnect\<close> event is emitted.
\<close>

theorem detached_unknown_slave:
  assumes "\<forall>r \<in> set (attaching_slaves s @ slaves s). sb_slave s r \<noteq> Some w"
  shows "detached e w s =
         (Inr (), s, [LogMsg ''WEIRD: Builder.detached not in attaching_slaves or slaves''])"
proof -
  from assms have "find_slot s w = None"
    by (simp only: find_slot_None)
  then show ?thesis
    by (simp add: detached_def)
qed

theorem detached_unknown_slave_witness:
  "slots_of state0 worker2 = []
   \<and> detached env0 worker2 state0 =
       (Inr (), state0, [LogMsg ''WEIRD: Builder.detached not in attaching_slaves or slaves''])"
proof -
  have h: "\<forall>r \<in> set (attaching_slaves state0 @ slaves state0). sb_slave state0 r \<noteq> Some worker2"
    by (simp add: state0_def worker1_def worker2_def)
  have none: "slots_of state0 worker2 = []"
    by (simp add: slots_of_def state0_def worker1_def worker2_def)
  from none detached_unknown_slave [OF h, of env0] show ?thesis
    by simp
qed

lemma attached_known:
  assumes "\<exists>r \<in> set (attaching_slaves s @ slaves s). sb_slave s r = Some w"
  shows "attached e w s = (Inr (), s, [])"
proof -
  from assms obtain r where "find_slot s w = Some r"
    using find_slot_Some by blast
  then show ?thesis
    by (simp add: attached_def)
qed

lemma attached_repeat_known:
  assumes "\<exists>r \<in> set (attaching_slaves s @ slaves s). sb_slave s r = Some w"
  shows "attached_repeat e w n s = s"
  by (induction n) (simp_all add: attached_known [OF assms])

text \<open>
  C7. \<open>attached(slave, commands)\<close> for a worker that a slot of \<open>attaching_slaves\<close> or
  \<open>slaves\<close> already references succeeds, changes nothing in the builder state (no new slot) and
  makes no call at all (no handshake, no status event); so any number of repeated calls leaves
  the slots that reference the worker as they were.
\<close>

theorem attached_duplicate_noop:
  assumes "\<exists>r \<in> set (attaching_slaves s @ slaves s). sb_slave s r = Some w"
  shows "attached e w s = (Inr (), s, [])
         \<and> attached_repeat e w n s = s
         \<and> slots_of (attached_repeat e w n s) w = slots_of s w"
proof -
  have one: "attached e w s = (Inr (), s, [])"
    using assms by (rule attached_known)
  have many: "attached_repeat e w n s = s"
    using assms by (rule attached_repeat_known)
  from one many show ?thesis
    by simp
qed

theorem attached_duplicate_noop_witness:
  "(\<exists>r \<in> set (attaching_slaves state0 @ slaves state0). sb_slave state0 r = Some worker1)
   \<and> attached env0 worker1 state0 = (Inr (), state0, [])
   \<and> attached_repeat env0 worker1 2 state0 = state0
   \<and> slots_of (attached_repeat env0 worker1 2 state0) worker1 = [1]"
proof -
  have h: "\<exists>r \<in> set (attaching_slaves state0 @ slaves state0). sb_slave state0 r = Some worker1"
    by (simp add: state0_def)
  have one: "slots_of state0 worker1 = [1]"
    by (simp add: slots_of_def state0_def)
  from h one attached_duplicate_noop [OF h, of env0 2] show ?thesis
    by simp
qed

text \<open>
  A first \<open>attached\<close> for a worker that no slot references leaves exactly one slot for it,
  the new one, whether the handshake succeeds or not; a repeated call changes nothing, so any
  number of calls leaves exactly one.
\<close>

lemma slots_of_new:
  assumes none: "find_slot s w = None"
    and sb: "sb = new_ref (attaching_slaves s @ slaves s)"
    and sl: "sb_slave s' = (sb_slave s)(sb := Some w)"
    and lists: "attaching_slaves s' @ slaves s' = xs @ [sb] @ ys"
               "set xs \<union> set ys \<subseteq> set (attaching_slaves s @ slaves s)"
  shows "slots_of s' w = [sb]"
proof -
  have fresh: "sb \<notin> set (attaching_slaves s @ slaves s)"
    unfolding sb by (rule new_ref_fresh)
  have other: "sb_slave s' r \<noteq> Some w" if "r \<in> set xs \<union> set ys" for r
  proof -
    from that lists(2) have r: "r \<in> set (attaching_slaves s @ slaves s)" by blast
    with fresh have "r \<noteq> sb" by blast
    moreover from none have "\<forall>r \<in> set (attaching_slaves s @ slaves s). sb_slave s r \<noteq> Some w"
      by (simp only: find_slot_None)
    with r have "sb_slave s r \<noteq> Some w"
      by blast
    ultimately show ?thesis by (simp add: sl)
  qed
  have "filter (\<lambda>r. sb_slave s' r = Some w) xs = []"
       "filter (\<lambda>r. sb_slave s' r = Some w) ys = []"
    using other by (auto simp: filter_empty_conv)
  then show ?thesis
    by (simp add: slots_of_def lists(1) sl)
qed

lemma attached_first_binds_one_slot:
  assumes "find_slot s w = None"
  shows "slots_of (fst (snd (attached e w s))) w = [new_ref (attaching_slaves s @ slaves s)]"
proof -
  let ?sb = "new_ref (attaching_slaves s @ slaves s)"
  let ?s1 = "s\<lparr>attaching_slaves := attaching_slaves s @ [?sb],
                sb_slave := (sb_slave s)(?sb := Some w)\<rparr>"
  have fresh: "?sb \<notin> set (attaching_slaves s)"
    using new_ref_fresh [of "attaching_slaves s @ slaves s"] by simp
  have waiting: "slots_of ?s1 w = [?sb]"
    by (rule slots_of_new [OF assms refl, where xs = "attaching_slaves s" and ys = "slaves s"])
       simp_all
  have moved: "slots_of (?s1\<lparr>attaching_slaves := attaching_slaves s,
                             slaves := slaves s @ [?sb]\<rparr>) w = [?sb]"
    by (rule slots_of_new [OF assms refl,
          where xs = "attaching_slaves s @ slaves s" and ys = "[]"]) simp_all
  have rem: "list_remove ?sb (attaching_slaves s @ [?sb]) = Inr (attaching_slaves s)"
    using fresh by (simp add: list_remove_def remove1_append)
  have "fst (snd (attached e w s)) = ?s1
        \<or> fst (snd (attached e w s)) =
            ?s1\<lparr>attaching_slaves := attaching_slaves s, slaves := slaves s @ [?sb]\<rparr>"
    using assms rem
    by (auto simp: attached_def attached_cb_def not_attached_def Let_def split: sum.splits)
  with waiting moved show ?thesis
    by auto
qed

lemma attached_twice_one_slot:
  assumes "find_slot s w = None"
  shows "length (slots_of (attached_repeat e w (Suc n) s) w) = 1"
proof -
  let ?s1 = "fst (snd (attached e w s))"
  have one: "slots_of ?s1 w = [new_ref (attaching_slaves s @ slaves s)]"
    using assms by (rule attached_first_binds_one_slot)
  then have "new_ref (attaching_slaves s @ slaves s) \<in> set (slots_of ?s1 w)"
    by simp
  then have "\<exists>r \<in> set (attaching_slaves ?s1 @ slaves ?s1). sb_slave ?s1 r = Some w"
    unfolding slots_of_def set_filter by blast
  then have "attached_repeat e w n ?s1 = ?s1"
    by (rule attached_repeat_known)
  with one show ?thesis
    by simp
qed

subsection \<open>The coarse builder state\<close>

lemma big_states_append: "big_states (xs @ ys) = big_states xs @ big_states ys"
  by (induction xs rule: big_states.induct) simp_all

lemma big_states_updateBigStatus_try:
  "big_states (snd (updateBigStatus_try e s)) =
     (if \<not> builder_status s then []
      else if slaves s = [] then [''offline'']
      else if building s \<noteq> [] \<or> old_building s \<noteq> [] then [''building'']
      else [''idle''])"
  by (simp add: updateBigStatus_try_def)

text \<open>
  C10, as the code has it. \<open>updateBigStatus\<close> never raises. With \<open>builder_status\<close> unset it
  makes no call; otherwise it pushes exactly one state: \<open>offline\<close> when \<open>slaves\<close> (the
  available collection) is empty, whatever \<open>attaching_slaves\<close> holds, else \<open>building\<close> when
  \<open>building\<close> or \<open>old_building\<close> holds a build, else \<open>idle\<close>.
\<close>

theorem updateBigStatus_pushes_one_state:
  "fst (updateBigStatus e s) = Inr ()
   \<and> (\<not> builder_status s \<longrightarrow> snd (updateBigStatus e s) = [])
   \<and> (builder_status s \<longrightarrow>
        big_states (snd (updateBigStatus e s)) =
          [if slaves s = [] then ''offline''
           else if building s \<noteq> [] \<or> old_building s \<noteq> [] then ''building''
           else ''idle''])"
proof -
  obtain r evs where t: "updateBigStatus_try e s = (r, evs)"
    by (cases "updateBigStatus_try e s")
  have ok: "fst (updateBigStatus e s) = Inr ()"
    by (cases r) (simp_all add: updateBigStatus_def t)
  have evs: "big_states (snd (updateBigStatus e s)) = big_states evs"
    by (cases r) (simp_all add: updateBigStatus_def t big_states_append)
  have none: "\<not> builder_status s \<Longrightarrow> snd (updateBigStatus e s) = []"
    by (simp add: updateBigStatus_def updateBigStatus_try_def)
  from big_states_updateBigStatus_try [of e s] t have
    "big_states evs = (if \<not> builder_status s then []
      else if slaves s = [] then [''offline'']
      else if building s \<noteq> [] \<or> old_building s \<noteq> [] then [''building'']
      else [''idle''])"
    by simp
  with ok evs none show ?thesis
    by simp
qed

theorem updateBigStatus_pushes_one_state_witness:
  "fst (updateBigStatus env0 state0) = Inr ()
   \<and> builder_status state0
   \<and> big_states (snd (updateBigStatus env0 state0)) = [''idle'']"
  using updateBigStatus_pushes_one_state [of env0 state0]
  by (simp add: state0_def)

text \<open>The registry holds a slot, in \<open>attaching_slaves\<close>, and the state pushed is
  \<open>offline\<close>.\<close>

theorem updateBigStatus_offline_counterexample:
  "attaching_slaves state_attaching @ slaves state_attaching \<noteq> []
   \<and> updateBigStatus env0 state_attaching = (Inr (), [SetBigState ''offline''])"
  by (simp add: state_attaching_def state0_def env0_def updateBigStatus_def
      updateBigStatus_try_def)

subsection \<open>Reconfiguration\<close>

lemma getBuilderId_fields:
  assumes "getBuilderId e s = (r, s', evs)"
  shows "name s' = name s" "building s' = building s" "old_building s' = old_building s"
    "attaching_slaves s' = attaching_slaves s" "slaves s' = slaves s" "config s' = config s"
    "builder_status s' = builder_status s" "running s' = running s" "builds s' = builds s"
    "sb_slave s' = sb_slave s"
  using assms
  by (auto simp: getBuilderId_def split: option.splits sum.splits if_splits)

lemma keep_configured_filter:
  "keep_configured sl names rs = Inr kept \<Longrightarrow>
   kept = filter (\<lambda>r. case sl r of None \<Rightarrow> False | Some w \<Rightarrow> slavename w \<in> set names) rs"
  by (induction rs arbitrary: kept) (auto split: option.splits sum.splits if_splits)

text \<open>
  C6, as the code has it. After a \<open>reconfigService\<close> that returns, \<open>slaves\<close> (the available
  collection) holds, in their former order, exactly its former slots whose worker name is in
  the \<open>slavenames\<close> of the builder's new configuration; \<open>attaching_slaves\<close> is not pruned.
\<close>

theorem reconfigService_prunes_available:
  assumes "reconfigService e new_config s = (Inr (), s', evs)"
  shows "\<exists>bc. find (\<lambda>bc. bc_name bc = name s) (builders new_config) = Some bc
           \<and> slaves s' = filter (slot_configured s (bc_slavenames bc)) (slaves s)
           \<and> attaching_slaves s' = attaching_slaves s
           \<and> sb_slave s' = sb_slave s"
proof -
  from assms obtain bc where bc: "find (\<lambda>bc. bc_name bc = name s) (builders new_config) = Some bc"
    by (cases "find (\<lambda>bc. bc_name bc = name s) (builders new_config)")
       (auto simp: reconfigService_def)
  define s1 where "s1 = s\<lparr>builder_status := True, config := Some bc\<rparr>"
  obtain r s2 evs2 where g: "getBuilderId e s1 = (r, s2, evs2)"
    by (cases "getBuilderId e s1") auto
  have fr: "slaves s2 = slaves s" "sb_slave s2 = sb_slave s" "attaching_slaves s2 = attaching_slaves s"
    using getBuilderId_fields [OF g] by (simp_all add: s1_def)
  from assms bc g obtain kept where
    k: "keep_configured (sb_slave s2) (bc_slavenames bc) (slaves s2) = Inr kept"
    and s': "s' = s2\<lparr>slaves := kept\<rparr>"
    by (auto simp: reconfigService_def Let_def s1_def split: sum.splits)
  from keep_configured_filter [OF k] fr
  have "kept = filter (slot_configured s (bc_slavenames bc)) (slaves s)"
    by (simp add: slot_configured_def [abs_def])
  with bc s' fr show ?thesis
    by simp
qed

theorem reconfigService_prunes_available_witness:
  "fst (reconfigService env0 master_config0 state_two) = Inr ()
   \<and> slaves (fst (snd (reconfigService env0 master_config0 state_two))) = [1]
   \<and> attaching_slaves (fst (snd (reconfigService env0 master_config0 state_two))) = [2]"
proof -
  have r: "reconfigService env0 master_config0 state_two =
     (Inr (), state_two,
      [SetDescription ''compiles'', SetCategory ''main'', SetSlavenames [''w1''], SetCacheSize 15])"
    by (simp add: reconfigService_def master_config0_def config0_def state_two_def state0_def
        env0_def getBuilderId_def worker1_def worker2_def)
  from reconfigService_prunes_available [OF r] r show ?thesis
    by (simp add: state_two_def state0_def)
qed

text \<open>A slot in \<open>attaching_slaves\<close> whose worker is not in the new allow-list stays.\<close>

theorem reconfigService_attaching_counterexample:
  "fst (reconfigService env0 master_config0 state_two) = Inr ()
   \<and> 2 \<in> set (attaching_slaves (fst (snd (reconfigService env0 master_config0 state_two))))
   \<and> sb_slave (fst (snd (reconfigService env0 master_config0 state_two))) 2 = Some worker2
   \<and> slavename worker2 \<notin> set (bc_slavenames config0)"
  by (simp add: reconfigService_def master_config0_def config0_def state_two_def state0_def
        env0_def getBuilderId_def worker1_def worker2_def)

subsection \<open>Starting a build\<close>

lemma getBuilderId_events:
  "getBuilderId e s = (r, s', evs) \<Longrightarrow> evs = [] \<or> evs = [FindBuilderId (name s)]"
  by (auto simp: getBuilderId_def split: option.splits sum.splits if_splits)

lemma updateBigStatus_events:
  "snd (updateBigStatus e s) = [] \<or>
   (\<exists>st. snd (updateBigStatus e s) = [SetBigState st] \<or>
     snd (updateBigStatus e s) = [SetBigState st, LogErr ''while trying to update status of builder''])"
  by (auto simp: updateBigStatus_def updateBigStatus_try_def split: sum.splits)

lemma added_rows_append: "added_rows (xs @ ys) = added_rows xs @ added_rows ys"
  by (induction xs rule: added_rows.induct) simp_all

lemma worker_calls_append: "worker_calls (xs @ ys) = worker_calls xs @ worker_calls ys"
  by (induction xs rule: worker_calls.induct) simp_all

lemma commitments_append: "commitments (xs @ ys) = commitments xs @ commitments ys"
  by (induction xs rule: commitments.induct) simp_all

lemma claimed_after_append:
  "claimed_after e (xs @ ys) c = claimed_after e ys (claimed_after e xs c)"
  by (induction e xs c rule: claimed_after.induct) simp_all

lemma updateBigStatus_quiet:
  "added_rows (snd (updateBigStatus e s)) = []"
  "commitments (snd (updateBigStatus e s)) = []"
  "claimed_after e' (snd (updateBigStatus e s)) c = c"
  using updateBigStatus_events [of e s] by auto

lemma getBuilderId_quiet:
  assumes "getBuilderId e s = (r, s', evs)"
  shows "added_rows evs = []" "commitments evs = []" "claimed_after e' evs c = c"
  using getBuilderId_events [OF assms] by auto

lemma guarded_quiet:
  assumes "guarded r m = (v, evs)"
  shows "added_rows evs = []" "commitments evs = []" "claimed_after e' evs c = c"
  using assms by (auto simp: guarded_def split: sum.splits)

lemma getBuilderId_idem:
  assumes "getBuilderId e s = (Inr b, s1, ev)"
  shows "fst (getBuilderId e s1) = Inr b \<and> fst (snd (getBuilderId e s1)) = s1"
  using assms
  by (auto simp: getBuilderId_def split: option.splits sum.splits if_splits)

text \<open>The closure pushed last runs first, and a closure that raises ends the unwinding.\<close>

lemma run_cleanups_lifo:
  "run_cleanups e (cleanups @ [c]) s =
     (case run_cleanup e c s of
        (Inl err, s', evs) \<Rightarrow> (s', evs @ [LogErr ''while running run_cleanups''])
      | (Inr u, s', evs) \<Rightarrow>
          (case run_cleanups e cleanups s' of (s'', evs') \<Rightarrow> (s'', evs @ evs')))"
  by (simp add: run_cleanups_def split: prod.splits sum.splits)

text \<open>Whatever the environment does, unwinding gives no row to \<open>addBuild\<close>, and an aborted
  start returns false.\<close>

lemma run_cleanup_rows: "added_rows (snd (snd (run_cleanup e c s))) = []"
  by (cases c) (simp_all add: updateBigStatus_quiet split: option.splits sum.splits)

lemma run_popped_rows: "added_rows (snd (run_popped e cs s)) = []"
proof (induction cs arbitrary: s)
  case Nil
  then show ?case by simp
next
  case (Cons c cs)
  obtain r s1 ev1 where c: "run_cleanup e c s = (r, s1, ev1)"
    by (cases "run_cleanup e c s")
  from run_cleanup_rows [of e c s] c have ev1: "added_rows ev1 = []"
    by simp
  obtain s2 ev2 where rest: "run_popped e cs s1 = (s2, ev2)"
    by (cases "run_popped e cs s1")
  from Cons.IH [of s1] rest have ev2: "added_rows ev2 = []"
    by simp
  show ?case
    by (cases r) (simp_all add: c rest ev1 ev2 added_rows_append)
qed

lemma abort_start_rows:
  assumes "abort_start e cs s evs = (r, s', evs')"
  shows "r = Inr False \<and> added_rows evs' = added_rows evs"
proof -
  obtain s1 evc where u: "run_cleanups e cs s = (s1, evc)"
    by (cases "run_cleanups e cs s")
  from run_popped_rows [of e "rev cs" s] u have "added_rows evc = []"
    by (simp add: run_cleanups_def)
  with assms u show ?thesis
    by (auto simp: abort_start_def added_rows_append)
qed

lemma start_handoff_rows:
  assumes "start_handoff e sb w b rs bid cs s = (r, s', evs)"
  shows "(r = Inr True \<longrightarrow> rs \<noteq> []
           \<and> added_rows evs = [\<lparr>row_builderid = bid, row_buildrequestid = br_id (last rs),
                 row_buildslaveid = buildslaveid w, row_masterid = masterid e,
                 row_state_strings = [''created'']\<rparr>])
       \<and> (rs = [] \<longrightarrow> r \<noteq> Inr True \<and> added_rows evs = [])"
  using assms
  by (auto simp: start_handoff_def Let_def added_rows_append updateBigStatus_quiet
      split: option.splits sum.splits if_splits list.splits dest!: abort_start_rows)

lemma start_on_slave_rows:
  assumes "start_on_slave e sb w b rs bid cs s = (r, s', evs)"
  shows "(r = Inr True \<longrightarrow> rs \<noteq> []
           \<and> added_rows evs = [\<lparr>row_builderid = bid, row_buildrequestid = br_id (last rs),
                 row_buildslaveid = buildslaveid w, row_masterid = masterid e,
                 row_state_strings = [''created'']\<rparr>])
       \<and> (rs = [] \<longrightarrow> r \<noteq> Inr True \<and> added_rows evs = [])"
proof -
  obtain ready evp where p: "guarded (prepare e) ''while preparing slavebuilder:'' = (ready, evp)"
    by (cases "guarded (prepare e) ''while preparing slavebuilder:''")
  obtain pinged evq where q: "guarded (ping e) ''while pinging slave before build:'' = (pinged, evq)"
    by (cases "guarded (ping e) ''while pinging slave before build:''")
  note quiet = guarded_quiet(1) [OF p] guarded_quiet(1) [OF q]
  show ?thesis
  proof (cases "ready \<and> pinged")
    case False
    with assms p q quiet show ?thesis
      by (auto simp: start_on_slave_def Let_def added_rows_append
          split: if_splits dest!: abort_start_rows)
  next
    case True
    obtain r1 s1 evs1 where
      h: "start_handoff e sb w b rs bid cs (during_ping e (during_prepare e s)) = (r1, s1, evs1)"
      by (cases "start_handoff e sb w b rs bid cs (during_ping e (during_prepare e s))")
    from assms p q True h have "r = r1" "added_rows evs = added_rows evs1"
      by (auto simp: start_on_slave_def Let_def added_rows_append quiet)
    with start_handoff_rows [OF h] show ?thesis
      by simp
  qed
qed

lemma startBuildFor_rows:
  assumes run: "startBuildFor e sb rs s = (r, s', evs)"
  shows "(r = Inr True \<longrightarrow> rs \<noteq> []
           \<and> (\<exists>w bid. sb_slave s sb = Some w \<and> fst (getBuilderId e s) = Inr bid
                \<and> added_rows evs = [\<lparr>row_builderid = bid, row_buildrequestid = br_id (last rs),
                      row_buildslaveid = buildslaveid w, row_masterid = masterid e,
                      row_state_strings = [''created'']\<rparr>]))
       \<and> (rs = [] \<longrightarrow> r \<noteq> Inr True \<and> added_rows evs = [])"
proof (cases "sb_slave s sb")
  case None
  with run show ?thesis
    by (auto simp: startBuildFor_def)
next
  case (Some w)
  obtain r1 s1 ev1 where g1: "getBuilderId e s = (r1, s1, ev1)"
    by (cases "getBuilderId e s")
  note q1 = getBuilderId_quiet(1) [OF g1]
  show ?thesis
  proof (cases r1)
    case (Inl err)
    with run Some g1 q1 show ?thesis
      by (auto simp: startBuildFor_def)
  next
    case (Inr bid)
    obtain ev2 where g2: "getBuilderId e s1 = (Inr bid, s1, ev2)"
      using getBuilderId_idem [OF g1 [unfolded Inr]] by (cases "getBuilderId e s1") auto
    note q2 = getBuilderId_quiet(1) [OF g2]
    show ?thesis
    proof (cases "config s1")
      case None
      with run Some g1 Inr g2 q1 q2 show ?thesis
        by (auto simp: startBuildFor_def added_rows_append)
    next
      case cfg: (Some cfg)
      show ?thesis
      proof (cases "factory_newBuild e")
        case (Inl err)
        with run Some g1 Inr g2 cfg q1 q2 show ?thesis
          by (auto simp: startBuildFor_def added_rows_append Let_def)
      next
        case ok: (Inr u)
        define b where "b = new_ref (building s1 @ old_building s1)"
        define ev3 where "ev3 = [NewBuild b rs, LogMsg ''starting build'', SetLocks b (bc_locks cfg)]
           @ (if length (bc_env cfg) > 0 then [SetSlaveEnvironment b (bc_env cfg)] else [])
           @ [BuildingAppend b]"
        define s3 where "s3 = s1\<lparr>builds := (builds s1)(b := Some (newBuild rs)),
           building := building s1 @ [b]\<rparr>"
        obtain r4 s4 ev4 where
          h: "start_on_slave e sb w b rs bid [CUpdateBigStatus, CReleaseLocks sb, CRemoveBuild b] s3
                = (r4, s4, ev4)"
          by (cases "start_on_slave e sb w b rs bid
                       [CUpdateBigStatus, CReleaseLocks sb, CRemoveBuild b] s3")
        from run Some g1 Inr g2 cfg ok h have
          r: "r = r4"
          and evs: "evs = ev1 @ ev2 @ ev3 @ snd (updateBigStatus e s3) @ ev4"
          by (auto simp: startBuildFor_def Let_def s3_def ev3_def b_def)
        have "added_rows ev3 = []"
          by (simp add: ev3_def)
        then have rows: "added_rows evs = added_rows ev4"
          by (simp add: evs added_rows_append q1 q2 updateBigStatus_quiet)
        have bid: "fst (getBuilderId e s) = Inr bid"
          by (simp add: g1 Inr)
        from start_on_slave_rows [OF h] show ?thesis
          unfolding r rows using Some bid by auto
      qed
    qed
  qed
qed

text \<open>
  C5. When \<open>maybeStartBuild\<close> returns true the request list is not empty and exactly one row
  was given to \<open>addBuild\<close>: its \<open>buildrequestid\<close> is the id of the last request, its
  \<open>state_strings\<close> are \<open>['created']\<close>, and it carries the builder id that \<open>getBuilderId\<close>
  resolves, the \<open>buildslaveid\<close> of the slot's worker and the master's id.
\<close>

theorem maybeStartBuild_records_last_request:
  assumes "maybeStartBuild e sb rs s = (Inr True, s', evs)"
  shows "rs \<noteq> []
     \<and> (\<exists>w bid. sb_slave s sb = Some w \<and> fst (getBuilderId e s) = Inr bid
          \<and> added_rows evs = [\<lparr>row_builderid = bid, row_buildrequestid = br_id (last rs),
                row_buildslaveid = buildslaveid w, row_masterid = masterid e,
                row_state_strings = [''created'']\<rparr>])"
proof -
  from assms have run: "startBuildFor e sb rs s = (Inr True, s', evs)"
    by (simp add: maybeStartBuild_def split: if_splits)
  from startBuildFor_rows [OF run] show ?thesis
    by auto
qed

lemma happy_path:
  "maybeStartBuild env0 1 [req10, req42] state0 =
     (Inr True,
      state0\<lparr>builds := (builds state0)(1 := Some (newBuild [req10, req42])), building := [1]\<rparr>,
      [NewBuild 1 [req10, req42], LogMsg ''starting build'', SetLocks 1 [], BuildingAppend 1,
       SetBigState ''building'', Prepare 1 1,
       LogMsg ''starting build.. pinging the slave'', Ping 1,
       SlaveBuilderBuildStarted 1, RemoteStartBuild ''compile'', StatusNewBuild,
       AddBuild \<lparr>row_builderid = 5, row_buildrequestid = 42, row_buildslaveid = 11,
                 row_masterid = 9, row_state_strings = [''created'']\<rparr>,
       StatusBuildStarted 42 ''compile'', StartBuild 1 1, SetBigState ''building''])"
  by (simp add: maybeStartBuild_def startBuildFor_def start_on_slave_def start_handoff_def
      guarded_def getBuilderId_def updateBigStatus_def updateBigStatus_try_def new_ref_def
      state0_def env0_def config0_def worker1_def req10_def req42_def)

theorem maybeStartBuild_records_last_request_witness:
  "fst (maybeStartBuild env0 1 [req10, req42] state0) = Inr True
   \<and> added_rows (snd (snd (maybeStartBuild env0 1 [req10, req42] state0))) =
       [\<lparr>row_builderid = 5, row_buildrequestid = 42, row_buildslaveid = 11,
         row_masterid = 9, row_state_strings = [''created'']\<rparr>]"
  using maybeStartBuild_records_last_request [OF happy_path] happy_path
  by simp

text \<open>
  C4, as the code has it. With an empty request list \<open>maybeStartBuild\<close> never returns true
  and never calls \<open>addBuild\<close>.
\<close>

theorem maybeStartBuild_empty_requests:
  assumes "maybeStartBuild e sb [] s = (r, s', evs)"
  shows "r \<noteq> Inr True \<and> added_rows evs = []"
proof (cases "running s")
  case False
  with assms show ?thesis
    by (auto simp: maybeStartBuild_def)
next
  case True
  with assms have run: "startBuildFor e sb [] s = (r, s', evs)"
    by (simp add: maybeStartBuild_def)
  from startBuildFor_rows [OF run] show ?thesis
    by auto
qed

lemma empty_requests_path:
  "maybeStartBuild env0 1 [] state0 =
     (Inr False,
      state0\<lparr>builds := (builds state0)(1 := Some (newBuild []))\<rparr>,
      [NewBuild 1 [], LogMsg ''starting build'', SetLocks 1 [], BuildingAppend 1,
       SetBigState ''building'', Prepare 1 1,
       LogMsg ''starting build.. pinging the slave'', Ping 1,
       SlaveBuilderBuildStarted 1, RemoteStartBuild ''compile'', StatusNewBuild,
       LogErr ''while adding rows to build table:'',
       SlaveBuilderBuildFinished 1, BuildingRemove 1, ReleaseLocks worker1,
       SetBigState ''idle''])"
  by (simp add: maybeStartBuild_def startBuildFor_def start_on_slave_def start_handoff_def
      abort_start_def run_cleanups_def list_remove_def
      guarded_def getBuilderId_def updateBigStatus_def updateBigStatus_try_def new_ref_def
      state0_def env0_def config0_def)

theorem maybeStartBuild_empty_requests_witness:
  "fst (maybeStartBuild env0 1 [] state0) = Inr False
   \<and> added_rows (snd (snd (maybeStartBuild env0 1 [] state0))) = []"
  using maybeStartBuild_empty_requests [OF empty_requests_path] empty_requests_path
  by simp

text \<open>On a running builder an empty request list passes the gate: the worker is prepared,
  pinged and told to start before \<open>build.requests[-1]\<close> fails; and when the factory raises on
  the empty list the call raises instead of returning false.\<close>

theorem maybeStartBuild_empty_not_gated_counterexample:
  "running state0
   \<and> fst (maybeStartBuild env0 1 [] state0) = Inr False
   \<and> worker_calls (snd (snd (maybeStartBuild env0 1 [] state0))) =
       [Prepare 1 1, Ping 1, RemoteStartBuild ''compile'']
   \<and> fst (maybeStartBuild (env0\<lparr>factory_newBuild := Inl Failure\<rparr>) 1 [] state0) = Inl Failure"
proof -
  have raised: "fst (maybeStartBuild (env0\<lparr>factory_newBuild := Inl Failure\<rparr>) 1 [] state0)
                  = Inl Failure"
    by (simp add: maybeStartBuild_def startBuildFor_def getBuilderId_def state0_def env0_def)
  have "running state0"
    by (simp add: state0_def)
  with raised empty_requests_path show ?thesis
    by simp
qed

text \<open>
  An aborted start whose waits were not interrupted. The reservation is still the last
  element of \<open>building\<close> and the slot still has its worker, so every closure returns and the
  whole stack is unwound.
\<close>

lemma run_cleanups_three:
  assumes "building s = bs @ [b]" "b \<notin> set bs" "sb_slave s sb = Some w"
  shows "run_cleanups e [CUpdateBigStatus, CReleaseLocks sb, CRemoveBuild b] s =
         (s\<lparr>building := bs\<rparr>,
          BuildingRemove b # ReleaseLocks w # snd (updateBigStatus e (s\<lparr>building := bs\<rparr>)))"
  using assms by (simp add: run_cleanups_def list_remove_def remove1_append)

lemma run_cleanups_four:
  assumes "building s = bs @ [b]" "b \<notin> set bs" "sb_slave s sb = Some w"
  shows "run_cleanups e [CUpdateBigStatus, CReleaseLocks sb, CRemoveBuild b, CBuildFinished sb] s =
         (s\<lparr>building := bs\<rparr>,
          SlaveBuilderBuildFinished sb # BuildingRemove b # ReleaseLocks w
          # snd (updateBigStatus e (s\<lparr>building := bs\<rparr>)))"
  using assms by (simp add: run_cleanups_def list_remove_def remove1_append)

lemma start_handoff_unwinds:
  assumes un: "uninterrupted e"
    and "building s = bs @ [b]" "b \<notin> set bs" "sb_slave s sb = Some w"
    and run: "start_handoff e sb w b rs bid [CUpdateBigStatus, CReleaseLocks sb, CRemoveBuild b] s
                = (Inr False, s', evs)"
  shows "s' = s\<lparr>building := bs\<rparr>
     \<and> commitments evs = [SlaveBuilderBuildStarted sb, SlaveBuilderBuildFinished sb,
                           BuildingRemove b, ReleaseLocks w]
     \<and> claimed_after e evs c = c
     \<and> suffix (snd (updateBigStatus e s')) evs"
proof -
  from un have id: "during_remoteStartBuild e = id" "during_addBuild e = id"
    by (simp_all add: uninterrupted_def)
  note four = run_cleanups_four [OF assms(2-4), of e]
  from run four show ?thesis
    by (auto simp: start_handoff_def abort_start_def Let_def id assms(4) commitments_append
        claimed_after_append updateBigStatus_quiet
        split: sum.splits if_splits list.splits
        intro!: suffix_appendI suffix_ConsI)
qed

lemma start_on_slave_unwinds:
  assumes un: "uninterrupted e"
    and "building s = bs @ [b]" "b \<notin> set bs" "sb_slave s sb = Some w"
    and run: "start_on_slave e sb w b rs bid [CUpdateBigStatus, CReleaseLocks sb, CRemoveBuild b] s
                = (Inr False, s', evs)"
  shows "s' = s\<lparr>building := bs\<rparr>
     \<and> (commitments evs = [BuildingRemove b, ReleaseLocks w]
        \<or> commitments evs = [SlaveBuilderBuildStarted sb, SlaveBuilderBuildFinished sb,
                              BuildingRemove b, ReleaseLocks w])
     \<and> claimed_after e evs c = c
     \<and> suffix (snd (updateBigStatus e s')) evs"
proof -
  let ?cs = "[CUpdateBigStatus, CReleaseLocks sb, CRemoveBuild b]"
  from un have id: "during_prepare e = id" "during_ping e = id"
    by (simp_all add: uninterrupted_def)
  obtain ready evp where p: "guarded (prepare e) ''while preparing slavebuilder:'' = (ready, evp)"
    by (cases "guarded (prepare e) ''while preparing slavebuilder:''")
  obtain pinged evq where q: "guarded (ping e) ''while pinging slave before build:'' = (pinged, evq)"
    by (cases "guarded (ping e) ''while pinging slave before build:''")
  note three = run_cleanups_three [OF assms(2-4), of e]
  show ?thesis
  proof (cases "ready \<and> pinged")
    case False
    with run p q three show ?thesis
      by (auto simp: start_on_slave_def abort_start_def Let_def id commitments_append
          claimed_after_append updateBigStatus_quiet guarded_quiet [OF p] guarded_quiet [OF q]
          split: if_splits intro!: suffix_appendI suffix_ConsI)
  next
    case True
    obtain r1 s1 evs1 where h: "start_handoff e sb w b rs bid ?cs s = (r1, s1, evs1)"
      by (cases "start_handoff e sb w b rs bid ?cs s")
    from run p q True h have
      r: "r1 = Inr False" and s: "s' = s1"
      and evs: "evs = (Prepare sb b # evp @ [LogMsg ''starting build.. pinging the slave'', Ping sb]
                        @ evq) @ evs1"
      by (auto simp: start_on_slave_def Let_def id)
    have pre: "commitments evs = commitments evs1" "claimed_after e evs c = claimed_after e evs1 c"
      by (simp_all add: evs commitments_append claimed_after_append
          guarded_quiet [OF p] guarded_quiet [OF q])
    from start_handoff_unwinds [OF un assms(2-4) h [unfolded r], of c]
    have "s1 = s\<lparr>building := bs\<rparr>"
      and "commitments evs1 = [SlaveBuilderBuildStarted sb, SlaveBuilderBuildFinished sb,
                               BuildingRemove b, ReleaseLocks w]"
      and "claimed_after e evs1 c = c"
      and "suffix (snd (updateBigStatus e s1)) evs1"
      by auto
    moreover from this(4) have "suffix (snd (updateBigStatus e s1)) evs"
      unfolding evs by (rule suffix_appendI)
    ultimately show ?thesis
      by (auto simp: s pre)
  qed
qed

lemma startBuildFor_unwinds:
  assumes un: "uninterrupted e"
    and run: "startBuildFor e sb rs s = (Inr False, s', evs)"
  defines "b \<equiv> new_ref (building s @ old_building s)"
  shows "\<exists>w cfg. sb_slave s sb = Some w \<and> config s = Some cfg
          \<and> building s' = building s \<and> old_building s' = old_building s
          \<and> attaching_slaves s' = attaching_slaves s \<and> slaves s' = slaves s
          \<and> (commitments evs =
                [SetLocks b (bc_locks cfg), BuildingAppend b, BuildingRemove b, ReleaseLocks w]
             \<or> commitments evs =
                [SetLocks b (bc_locks cfg), BuildingAppend b, SlaveBuilderBuildStarted sb,
                 SlaveBuilderBuildFinished sb, BuildingRemove b, ReleaseLocks w])
          \<and> claimed_after e evs c = c
          \<and> suffix (snd (updateBigStatus e s')) evs"
proof (cases "sb_slave s sb")
  case None
  with run show ?thesis
    by (simp add: startBuildFor_def)
next
  case (Some w)
  obtain r1 s1 ev1 where g1: "getBuilderId e s = (r1, s1, ev1)"
    by (cases "getBuilderId e s")
  note q1 = getBuilderId_quiet [OF g1]
  note bld1 = getBuilderId_fields [OF g1]
  show ?thesis
  proof (cases r1)
    case (Inl err)
    with run Some g1 show ?thesis
      by (simp add: startBuildFor_def)
  next
    case (Inr bid)
    obtain ev2 where g2: "getBuilderId e s1 = (Inr bid, s1, ev2)"
      using getBuilderId_idem [OF g1 [unfolded Inr]] by (cases "getBuilderId e s1") auto
    note q2 = getBuilderId_quiet [OF g2]
    show ?thesis
    proof (cases "config s")
      case None
      with run Some g1 Inr g2 bld1 show ?thesis
        by (simp add: startBuildFor_def)
    next
      case cfg: (Some cfg)
      have b1: "new_ref (building s1 @ old_building s1) = b"
        by (simp add: b_def bld1)
      show ?thesis
      proof (cases "factory_newBuild e")
        case (Inl err)
        with run Some g1 Inr g2 cfg bld1 show ?thesis
          by (simp add: startBuildFor_def Let_def)
      next
        case ok: (Inr u)
        define ev3 where "ev3 = [NewBuild b rs, LogMsg ''starting build'', SetLocks b (bc_locks cfg)]
           @ (if length (bc_env cfg) > 0 then [SetSlaveEnvironment b (bc_env cfg)] else [])
           @ [BuildingAppend b]"
        define s3 where "s3 = s1\<lparr>builds := (builds s1)(b := Some (newBuild rs)),
           building := building s1 @ [b]\<rparr>"
        obtain r4 s4 ev4 where
          h: "start_on_slave e sb w b rs bid [CUpdateBigStatus, CReleaseLocks sb, CRemoveBuild b] s3
                = (r4, s4, ev4)"
          by (cases "start_on_slave e sb w b rs bid
                       [CUpdateBigStatus, CReleaseLocks sb, CRemoveBuild b] s3")
        from run Some g1 Inr g2 cfg bld1 ok b1 h have
          r: "r4 = Inr False" and s': "s' = s4"
          and evs: "evs = (ev1 @ ev2 @ ev3 @ snd (updateBigStatus e s3)) @ ev4"
          by (auto simp: startBuildFor_def Let_def s3_def ev3_def)
        have bld3: "building s3 = building s @ [b]"
          by (simp add: s3_def bld1)
        have fresh: "b \<notin> set (building s)"
          using new_ref_fresh [of "building s @ old_building s"] by (simp add: b_def)
        have sl3: "sb_slave s3 sb = Some w"
          by (simp add: s3_def bld1 Some)
        have c3: "commitments ev3 = [SetLocks b (bc_locks cfg), BuildingAppend b]"
          "claimed_after e ev3 c = c"
          by (simp_all add: ev3_def)
        have pre: "commitments evs = SetLocks b (bc_locks cfg) # BuildingAppend b # commitments ev4"
          "claimed_after e evs c = claimed_after e ev4 c"
          by (simp_all add: evs commitments_append claimed_after_append q1 q2 c3
              updateBigStatus_quiet)
        from start_on_slave_unwinds [OF un bld3 fresh sl3 h [unfolded r], of c]
        have undone: "s4 = s3\<lparr>building := building s\<rparr>"
          and order: "commitments ev4 = [BuildingRemove b, ReleaseLocks w]
             \<or> commitments ev4 = [SlaveBuilderBuildStarted sb, SlaveBuilderBuildFinished sb,
                                   BuildingRemove b, ReleaseLocks w]"
          and claimed: "claimed_after e ev4 c = c"
          and refreshed: "suffix (snd (updateBigStatus e s4)) ev4"
          by auto
        from refreshed have refreshed': "suffix (snd (updateBigStatus e s')) evs"
          unfolding evs s' by (rule suffix_appendI)
        have restored: "building s' = building s" "old_building s' = old_building s"
          "attaching_slaves s' = attaching_slaves s" "slaves s' = slaves s"
          by (simp_all add: s' undone s3_def bld1)
        from order claimed refreshed' restored Some cfg show ?thesis
          by (auto simp: pre)
      qed
    qed
  qed
qed

text \<open>
  So when \<open>maybeStartBuild\<close> returns false and no wait was interrupted, \<open>building\<close>,
  \<open>old_building\<close>, \<open>attaching_slaves\<close> and \<open>slaves\<close> are what they were, so is the multiset of
  builds in flight, and the claimed request ids are untouched. Either the builder was not
  running and nothing happened, or the commitments were undone last-in first-out: the slot
  left \<open>BUILDING\<close> (if it had entered it), then the build left \<open>building\<close>, then the locks were
  released, and the status was refreshed last.
\<close>

lemma maybeStartBuild_false_restores:
  assumes "uninterrupted e"
    and "maybeStartBuild e sb rs s = (Inr False, s', evs)"
  shows "building s' = building s \<and> old_building s' = old_building s
     \<and> attaching_slaves s' = attaching_slaves s \<and> slaves s' = slaves s
     \<and> mset (building s' @ old_building s') = mset (building s @ old_building s)
     \<and> claimed_after e evs c = c
     \<and> ((\<not> running s \<and> s' = s \<and> evs = [])
        \<or> (running s \<and> suffix (snd (updateBigStatus e s')) evs \<and>
            (\<exists>w cfg. sb_slave s sb = Some w \<and> config s = Some cfg
               \<and> (commitments evs =
                     [SetLocks (new_ref (building s @ old_building s)) (bc_locks cfg),
                      BuildingAppend (new_ref (building s @ old_building s)),
                      BuildingRemove (new_ref (building s @ old_building s)),
                      ReleaseLocks w]
                  \<or> commitments evs =
                     [SetLocks (new_ref (building s @ old_building s)) (bc_locks cfg),
                      BuildingAppend (new_ref (building s @ old_building s)),
                      SlaveBuilderBuildStarted sb, SlaveBuilderBuildFinished sb,
                      BuildingRemove (new_ref (building s @ old_building s)),
                      ReleaseLocks w]))))"
proof (cases "running s")
  case False
  with assms(2) show ?thesis
    by (simp add: maybeStartBuild_def)
next
  case True
  with assms(2) have run: "startBuildFor e sb rs s = (Inr False, s', evs)"
    by (simp add: maybeStartBuild_def)
  from startBuildFor_unwinds [OF assms(1) run, of c] True show ?thesis
    by auto
qed

lemma uninterrupted_env0: "uninterrupted (env0\<lparr>prepare := Inr False\<rparr>)"
  by (simp add: uninterrupted_def env0_def)

lemma prepare_refused_path:
  "maybeStartBuild (env0\<lparr>prepare := Inr False\<rparr>) 1 [req42] state0 =
     (Inr False,
      state0\<lparr>builds := (builds state0)(1 := Some (newBuild [req42]))\<rparr>,
      [NewBuild 1 [req42], LogMsg ''starting build'', SetLocks 1 [], BuildingAppend 1,
       SetBigState ''building'', Prepare 1 1,
       LogMsg ''slave cannot build after all; re-queueing the request'',
       BuildingRemove 1, ReleaseLocks worker1, SetBigState ''idle''])"
  by (simp add: maybeStartBuild_def startBuildFor_def start_on_slave_def abort_start_def
      run_cleanups_def list_remove_def
      guarded_def getBuilderId_def updateBigStatus_def updateBigStatus_try_def new_ref_def
      state0_def env0_def config0_def req42_def)

lemma prepare_refused_restores:
  "building (fst (snd (maybeStartBuild (env0\<lparr>prepare := Inr False\<rparr>) 1 [req42] state0))) = []
   \<and> slaves (fst (snd (maybeStartBuild (env0\<lparr>prepare := Inr False\<rparr>) 1 [req42] state0))) = [1]
   \<and> claimed_after (env0\<lparr>prepare := Inr False\<rparr>)
        (snd (snd (maybeStartBuild (env0\<lparr>prepare := Inr False\<rparr>) 1 [req42] state0))) {42}
       = {42}"
  using maybeStartBuild_false_restores [OF uninterrupted_env0 prepare_refused_path, of "{42}"]
    prepare_refused_path
  by (simp add: state0_def)

text \<open>
  C1 at the connection lost after \<open>addBuild\<close>. Every call has succeeded and no wait was
  interrupted, but \<open>slavebuilder.slave.conn\<close> is found unset once the row is in the build
  store. The four closures run and the call returns false: the row given to \<open>addBuild\<close>
  stays, and so does the build that \<open>builder_status.newBuild()\<close> made; no closure takes
  either back.
\<close>

theorem maybeStartBuild_leaves_build_row:
  "addBuild (env0\<lparr>conn_after_addBuild := False\<rparr>) = Inr (100, 1)
   \<and> maybeStartBuild (env0\<lparr>conn_after_addBuild := False\<rparr>) 1 [req42] state0 =
     (Inr False,
      state0\<lparr>builds := (builds state0)(1 := Some (newBuild [req42]))\<rparr>,
      [NewBuild 1 [req42], LogMsg ''starting build'', SetLocks 1 [], BuildingAppend 1,
       SetBigState ''building'', Prepare 1 1,
       LogMsg ''starting build.. pinging the slave'', Ping 1,
       SlaveBuilderBuildStarted 1, RemoteStartBuild ''compile'', StatusNewBuild,
       AddBuild \<lparr>row_builderid = 5, row_buildrequestid = 42, row_buildslaveid = 11,
                 row_masterid = 9, row_state_strings = [''created'']\<rparr>,
       LogMsg ''slave disappeared before build could start'',
       SlaveBuilderBuildFinished 1, BuildingRemove 1, ReleaseLocks worker1,
       SetBigState ''idle''])"
  by (simp add: maybeStartBuild_def startBuildFor_def start_on_slave_def start_handoff_def
      abort_start_def run_cleanups_def list_remove_def
      guarded_def getBuilderId_def updateBigStatus_def updateBigStatus_try_def new_ref_def
      state0_def env0_def config0_def req42_def worker1_def)

text \<open>
  The worker is lost during the ping, which then answers false. The reservation is taken
  back, but \<open>slavebuilder.slave\<close> is \<open>None\<close> when the locks are to be released: the
  \<open>AttributeError\<close> ends the loop, and the status refresh, pushed first so as to run last,
  never runs.
\<close>

lemma maybeStartBuild_unwinding_cut_short:
  "fst (maybeStartBuild (env0\<lparr>ping := Inr False, during_ping := slot_lost 1\<rparr>) 1 [req42] state0)
     = Inr False
   \<and> snd (snd (maybeStartBuild (env0\<lparr>ping := Inr False, during_ping := slot_lost 1\<rparr>) 1 [req42]
              state0)) =
      [NewBuild 1 [req42], LogMsg ''starting build'', SetLocks 1 [], BuildingAppend 1,
       SetBigState ''building'', Prepare 1 1,
       LogMsg ''starting build.. pinging the slave'', Ping 1,
       LogMsg ''slave ping failed; re-queueing the request'',
       BuildingRemove 1, LogErr ''while running run_cleanups'']
   \<and> building (fst (snd (maybeStartBuild (env0\<lparr>ping := Inr False, during_ping := slot_lost 1\<rparr>)
                 1 [req42] state0))) = []"
  by (simp add: maybeStartBuild_def startBuildFor_def start_on_slave_def abort_start_def
      run_cleanups_def list_remove_def slot_lost_def
      guarded_def getBuilderId_def updateBigStatus_def updateBigStatus_try_def new_ref_def
      state0_def env0_def config0_def req42_def)

subsection \<open>Finishing a build\<close>

lemma produced_append: "produced (xs @ ys) = produced xs @ produced ys"
  by (induction xs rule: produced.induct) simp_all

lemma buildset_checks_append: "buildset_checks (xs @ ys) = buildset_checks xs @ buildset_checks ys"
  by (induction xs rule: buildset_checks.induct) simp_all

lemma completions_append: "completions (xs @ ys) = completions xs @ completions ys"
  by (induction xs rule: completions.induct) simp_all

lemma updateBigStatus_silent:
  "produced (snd (updateBigStatus e s)) = []" "buildset_checks (snd (updateBigStatus e s)) = []"
  "completions (snd (updateBigStatus e s)) = []"
  using updateBigStatus_events [of e s] by auto

lemma getBuilderId_silent:
  assumes "getBuilderId e s = (r, s', evs)"
  shows "produced evs = []" "buildset_checks evs = []" "completions evs = []"
  using getBuilderId_events [OF assms] by auto

lemma getBuilderId_building:
  "getBuilderId e (s\<lparr>building := bs\<rparr>) =
     (case getBuilderId e s of (r, s', evs) \<Rightarrow> (r, s'\<lparr>building := bs\<rparr>, evs))"
  by (auto simp: getBuilderId_def split: option.splits sum.splits)

text \<open>The second loop calls \<open>maybeBuildsetComplete\<close> at most once for a bsid, and only for
  bsids of the requests; when no call fails it reaches every one of them.\<close>

lemma check_buildsets_calls:
  "\<exists>r calls. check_buildsets e seen rs = (r, map MaybeBuildsetComplete calls)
     \<and> distinct calls \<and> set calls \<subseteq> bsid ` set rs - set seen
     \<and> ((\<forall>br \<in> set rs. maybeBuildsetComplete e (bsid br) = Inr ())
          \<longrightarrow> r = Inr () \<and> set calls = bsid ` set rs - set seen)"
proof (induction rs arbitrary: seen)
  case Nil
  show ?case by simp
next
  case (Cons br rs)
  show ?case
  proof (cases "bsid br \<in> set seen")
    case True
    from Cons.IH [of seen] obtain r calls where
      "check_buildsets e seen rs = (r, map MaybeBuildsetComplete calls)"
      "distinct calls" "set calls \<subseteq> bsid ` set rs - set seen"
      "(\<forall>br \<in> set rs. maybeBuildsetComplete e (bsid br) = Inr ())
         \<longrightarrow> r = Inr () \<and> set calls = bsid ` set rs - set seen"
      by blast
    with True have
      "check_buildsets e seen (br # rs) = (r, map MaybeBuildsetComplete calls)
       \<and> distinct calls \<and> set calls \<subseteq> bsid ` set (br # rs) - set seen
       \<and> ((\<forall>br \<in> set (br # rs). maybeBuildsetComplete e (bsid br) = Inr ())
            \<longrightarrow> r = Inr () \<and> set calls = bsid ` set (br # rs) - set seen)"
      by auto
    then show ?thesis by blast
  next
    case False
    show ?thesis
    proof (cases "maybeBuildsetComplete e (bsid br)")
      case (Inl err)
      with False have
        "check_buildsets e seen (br # rs) = (Inl err, map MaybeBuildsetComplete [bsid br])
         \<and> distinct [bsid br] \<and> set [bsid br] \<subseteq> bsid ` set (br # rs) - set seen
         \<and> ((\<forall>br \<in> set (br # rs). maybeBuildsetComplete e (bsid br) = Inr ())
              \<longrightarrow> Inl err = Inr () \<and> set [bsid br] = bsid ` set (br # rs) - set seen)"
        by auto
      then show ?thesis by blast
    next
      case (Inr u)
      from Cons.IH [of "bsid br # seen"] obtain r calls where
        c: "check_buildsets e (bsid br # seen) rs = (r, map MaybeBuildsetComplete calls)"
        "distinct calls" "set calls \<subseteq> bsid ` set rs - set (bsid br # seen)"
        "(\<forall>br \<in> set rs. maybeBuildsetComplete e (bsid br) = Inr ())
           \<longrightarrow> r = Inr () \<and> set calls = bsid ` set rs - set (bsid br # seen)"
        by blast
      have run: "check_buildsets e seen (br # rs) =
                   (r, map MaybeBuildsetComplete (bsid br # calls))"
        using False Inr c(1) by simp
      have d: "distinct (bsid br # calls)"
        using c(2,3) by auto
      have sub: "set (bsid br # calls) \<subseteq> bsid ` set (br # rs) - set seen"
        using c(3) False by auto
      have full: "(\<forall>br \<in> set (br # rs). maybeBuildsetComplete e (bsid br) = Inr ())
          \<longrightarrow> r = Inr () \<and> set (bsid br # calls) = bsid ` set (br # rs) - set seen"
        using c(4) False by auto
      from run d sub full show ?thesis by blast
    qed
  qed
qed

lemma produced_messages:
  "produced (map (\<lambda>br. Produce (k br) (m br)) rs) = map (\<lambda>br. (k br, m br)) rs"
  by (induction rs) simp_all

lemma buildset_checks_messages:
  "buildset_checks (map (\<lambda>br. Produce (k br) (m br)) rs) = []"
  by (induction rs) simp_all

lemma completions_messages:
  "completions (map (\<lambda>br. Produce (k br) (m br)) rs) = []"
  by (induction rs) simp_all

lemma produced_checks: "produced (map MaybeBuildsetComplete cs) = []"
  by (induction cs) simp_all

lemma buildset_checks_checks: "buildset_checks (map MaybeBuildsetComplete cs) = cs"
  by (induction cs) simp_all

lemma completions_checks: "completions (map MaybeBuildsetComplete cs) = []"
  by (induction cs) simp_all

text \<open>What \<open>_notify_completions\<close> does once the builder id is known: the messages, then the
  checks, and nothing else.\<close>

lemma notify_completions_resolved:
  assumes "getBuilderId e s = (Inr builder_id, s1, ev1)"
  shows "\<exists>r calls.
     notify_completions e rs res t s =
       (r, s1, ev1 @ map (\<lambda>br. Produce (complete_key builder_id br)
                              (complete_body builder_id res t br)) rs
               @ map MaybeBuildsetComplete calls)
     \<and> distinct calls \<and> set calls \<subseteq> bsid ` set rs
     \<and> ((\<forall>br \<in> set rs. maybeBuildsetComplete e (bsid br) = Inr ())
          \<longrightarrow> set calls = bsid ` set rs)"
proof -
  from check_buildsets_calls [of e "[]" rs] obtain r calls where
    "check_buildsets e [] rs = (r, map MaybeBuildsetComplete calls)"
    "distinct calls" "set calls \<subseteq> bsid ` set rs"
    "(\<forall>br \<in> set rs. maybeBuildsetComplete e (bsid br) = Inr ()) \<longrightarrow> set calls = bsid ` set rs"
    by auto
  with assms show ?thesis
    by (auto simp: notify_completions_def)
qed

lemma notify_completions_no_completions:
  "completions (snd (snd (notify_completions e rs res t s))) = []"
proof -
  obtain r0 s0 ev0 where g: "getBuilderId e s = (r0, s0, ev0)"
    by (cases "getBuilderId e s")
  note quiet = getBuilderId_silent(3) [OF g]
  show ?thesis
  proof (cases r0)
    case (Inl err)
    with g quiet show ?thesis
      by (simp add: notify_completions_def)
  next
    case (Inr builder_id)
    from notify_completions_resolved [OF g [unfolded Inr], of rs res t] quiet show ?thesis
      by (auto simp: completions_append completions_messages completions_checks)
  qed
qed

text \<open>
  C2, as the code has it. A build in \<open>building\<close> finishes with a result other than \<open>RETRY\<close>.
  Then \<open>buildFinished\<close> calls \<open>completeBuildRequests\<close> once, with the ids of all requests of
  the build, before any message and any \<open>maybeBuildsetComplete\<close> call. If that call
  succeeds and the builder id is resolved, what follows is one \<open>complete\<close> message per
  request, in order, with the key
  \<open>('buildrequest', str(bsid), str(builderid), str(brid), 'complete')\<close> and the six-field
  body, and only after all of them the \<open>maybeBuildsetComplete\<close> calls: at most one for a bsid,
  each for a bsid of the requests, and one for every bsid of the requests if each of these calls
  succeeds. No other message and no other such call is made.
\<close>

theorem buildFinished_completes_requests:
  assumes bld: "builds s b = Some bld" "build_status bld = Some res"
    and res: "res \<noteq> RETRY"
    and inflight: "b \<in> set (building s)"
  shows "\<exists>s' pre post.
     buildFinished e b sb (bid # bids) s =
       (Inr (), s',
        pre @ CompleteBuildRequests (map br_id (requests bld)) res (Datetime (seconds e)) # post)
     \<and> completions pre = [] \<and> produced pre = [] \<and> buildset_checks pre = []
     \<and> completions post = []
     \<and> (completeBuildRequests e = Inr () \<longrightarrow>
         (\<forall>builder_id. fst (getBuilderId e s) = Inr builder_id \<longrightarrow>
            (\<exists>lookup calls rest.
               post = lookup
                      @ map (\<lambda>br. Produce (complete_key builder_id br)
                                      (complete_body builder_id res (seconds e) br)) (requests bld)
                      @ map MaybeBuildsetComplete calls @ rest
               \<and> produced lookup = [] \<and> buildset_checks lookup = []
               \<and> produced rest = [] \<and> buildset_checks rest = []
               \<and> distinct calls \<and> set calls \<subseteq> bsid ` set (requests bld)
               \<and> ((\<forall>br \<in> set (requests bld). maybeBuildsetComplete e (bsid br) = Inr ())
                    \<longrightarrow> set calls = bsid ` set (requests bld)))))"
proof -
  define s1 where "s1 = s\<lparr>building := remove1 b (building s)\<rparr>"
  define pre where "pre = FinishBuild bid res
     # (case finishBuild e of
          Inl err \<Rightarrow> [LogErr ''while marking builds as finished (ignored)'']
        | Inr u \<Rightarrow> [])
     @ [BuildingRemove b]"
  define call where
    "call = CompleteBuildRequests (map br_id (requests bld)) res (Datetime (seconds e))"
  obtain s2 ev2 where cl: "close_requests e (requests bld) res s1 = (s2, ev2)"
    by (cases "close_requests e (requests bld) res s1")
  define tail where "tail = (case sb_slave s2 sb of None \<Rightarrow> [] | Some w \<Rightarrow> [ReleaseLocks w])
     @ snd (updateBigStatus e s2)"
  have tail: "produced tail = []" "buildset_checks tail = []" "completions tail = []"
    by (simp_all add: tail_def produced_append buildset_checks_append completions_append
        updateBigStatus_silent split: option.splits)
  have pre: "completions pre = []" "produced pre = []" "buildset_checks pre = []"
    by (simp_all add: pre_def split: sum.splits)
  have run: "buildFinished e b sb (bid # bids) s = (Inr (), s2, pre @ ev2 @ tail)"
    using inflight
    by (simp add: buildFinished_def bld list_remove_def s1_def [symmetric] cl pre_def tail_def)
  obtain r0 s0 ev0 where g0: "getBuilderId e s = (r0, s0, ev0)"
    by (cases "getBuilderId e s")
  have g1: "getBuilderId e s1 = (r0, s0\<lparr>building := remove1 b (building s)\<rparr>, ev0)"
    by (simp add: s1_def getBuilderId_building g0)
  obtain mid where ev2: "ev2 = call # mid" and mid: "completions mid = []"
    and told: "completeBuildRequests e = Inr () \<Longrightarrow>
                 mid = snd (snd (notify_completions e (requests bld) res (seconds e) s1))
                 \<or> mid = snd (snd (notify_completions e (requests bld) res (seconds e) s1))
                         @ [LogErr ''while marking build requests as completed'']"
  proof (cases "completeBuildRequests e")
    case (Inl err)
    with cl res have "ev2 = call # [LogErr ''while marking build requests as completed'']"
      by (auto simp: close_requests_def Let_def call_def)
    with Inl that show ?thesis
      by simp
  next
    case (Inr u)
    obtain r3 s3 ev3 where n: "notify_completions e (requests bld) res (seconds e) s1 = (r3, s3, ev3)"
      by (cases "notify_completions e (requests bld) res (seconds e) s1")
    from notify_completions_no_completions [of e "requests bld" res "seconds e" s1] n
    have quiet: "completions ev3 = []"
      by simp
    from cl res Inr n have
      "ev2 = call # ev3 \<or> ev2 = call # ev3 @ [LogErr ''while marking build requests as completed'']"
      by (cases r3) (auto simp: close_requests_def Let_def call_def)
    with quiet n that show ?thesis
      by (auto simp: completions_append)
  qed
  have post: "completions (mid @ tail) = []"
    by (simp add: completions_append mid tail)
  have msgs: "\<exists>lookup calls rest.
       mid @ tail = lookup
              @ map (\<lambda>br. Produce (complete_key builder_id br)
                              (complete_body builder_id res (seconds e) br)) (requests bld)
              @ map MaybeBuildsetComplete calls @ rest
       \<and> produced lookup = [] \<and> buildset_checks lookup = []
       \<and> produced rest = [] \<and> buildset_checks rest = []
       \<and> distinct calls \<and> set calls \<subseteq> bsid ` set (requests bld)
       \<and> ((\<forall>br \<in> set (requests bld). maybeBuildsetComplete e (bsid br) = Inr ())
            \<longrightarrow> set calls = bsid ` set (requests bld))"
    if stored: "completeBuildRequests e = Inr ()"
      and resolved: "fst (getBuilderId e s) = Inr builder_id" for builder_id
  proof -
    from resolved g0 have r0: "r0 = Inr builder_id"
      by simp
    from notify_completions_resolved [OF g1 [unfolded r0], of "requests bld" res "seconds e"]
    obtain r calls where
      n: "notify_completions e (requests bld) res (seconds e) s1 =
            (r, s0\<lparr>building := remove1 b (building s)\<rparr>,
             ev0 @ map (\<lambda>br. Produce (complete_key builder_id br)
                              (complete_body builder_id res (seconds e) br)) (requests bld)
                 @ map MaybeBuildsetComplete calls)"
      and calls: "distinct calls" "set calls \<subseteq> bsid ` set (requests bld)"
        "(\<forall>br \<in> set (requests bld). maybeBuildsetComplete e (bsid br) = Inr ())
           \<longrightarrow> set calls = bsid ` set (requests bld)"
      by blast
    let ?msgs = "map (\<lambda>br. Produce (complete_key builder_id br)
                              (complete_body builder_id res (seconds e) br)) (requests bld)"
    from told [OF stored] n obtain rest0 where
      m: "mid = ev0 @ ?msgs @ map MaybeBuildsetComplete calls @ rest0"
      and rest0: "rest0 = [] \<or> rest0 = [LogErr ''while marking build requests as completed'']"
      by auto
    have lookup: "produced ev0 = []" "buildset_checks ev0 = []"
      by (rule getBuilderId_silent [OF g0])+
    have rest: "produced (rest0 @ tail) = []" "buildset_checks (rest0 @ tail) = []"
      using rest0 by (auto simp: produced_append buildset_checks_append tail)
    have "mid @ tail = ev0 @ ?msgs @ map MaybeBuildsetComplete calls @ (rest0 @ tail)"
      by (simp add: m)
    with lookup rest calls show ?thesis
      by blast
  qed
  have "buildFinished e b sb (bid # bids) s = (Inr (), s2, pre @ call # (mid @ tail))"
    by (simp add: run ev2)
  with pre post msgs show ?thesis
    unfolding call_def by blast
qed

lemma completed_path:
  "buildFinished env0 1 1 [100] (state_building [req10, req11, req42] SUCCESS) =
     (Inr (), (state_building [req10, req11, req42] SUCCESS)\<lparr>building := []\<rparr>,
      [FinishBuild 100 SUCCESS, BuildingRemove 1,
       CompleteBuildRequests [10, 11, 42] SUCCESS (Datetime (PyFloat 4001 (- 2) ''1000.25'')),
       Produce [''buildrequest'', ''3'', ''5'', ''10'', ''complete'']
         [(''brid'', VInt 10), (''bsid'', VInt 3), (''buildername'', VStr ''compile''),
          (''builderid'', VInt 5), (''complete_at'', VFloat (PyFloat 4001 (- 2) ''1000.25'')),
          (''results'', VInt 0)],
       Produce [''buildrequest'', ''3'', ''5'', ''11'', ''complete'']
         [(''brid'', VInt 11), (''bsid'', VInt 3), (''buildername'', VStr ''compile''),
          (''builderid'', VInt 5), (''complete_at'', VFloat (PyFloat 4001 (- 2) ''1000.25'')),
          (''results'', VInt 0)],
       Produce [''buildrequest'', ''7'', ''5'', ''42'', ''complete'']
         [(''brid'', VInt 42), (''bsid'', VInt 7), (''buildername'', VStr ''compile''),
          (''builderid'', VInt 5), (''complete_at'', VFloat (PyFloat 4001 (- 2) ''1000.25'')),
          (''results'', VInt 0)],
       MaybeBuildsetComplete 3, MaybeBuildsetComplete 7,
       ReleaseLocks worker1, SetBigState ''idle''])"
  by (simp add: buildFinished_def close_requests_def notify_completions_def complete_key_def
      complete_body_def list_remove_def getBuilderId_def updateBigStatus_def
      updateBigStatus_try_def state_building_def state0_def env0_def req10_def req11_def
      req42_def str_int_def str_nat.simps Let_def)

theorem buildFinished_completes_requests_witness:
  "completions (snd (snd (buildFinished env0 1 1 [100]
       (state_building [req10, req11, req42] SUCCESS)))) =
      [([10, 11, 42], SUCCESS, Datetime (PyFloat 4001 (- 2) ''1000.25''))]
   \<and> buildset_checks (snd (snd (buildFinished env0 1 1 [100]
       (state_building [req10, req11, req42] SUCCESS)))) = [3, 7]
   \<and> map fst (produced (snd (snd (buildFinished env0 1 1 [100]
       (state_building [req10, req11, req42] SUCCESS))))) =
      [[''buildrequest'', ''3'', ''5'', ''10'', ''complete''],
       [''buildrequest'', ''3'', ''5'', ''11'', ''complete''],
       [''buildrequest'', ''7'', ''5'', ''42'', ''complete'']]"
proof -
  let ?s = "state_building [req10, req11, req42] SUCCESS"
  let ?bld = "\<lparr>requests = [req10, req11, req42], build_status = Some SUCCESS\<rparr>"
  have 1: "builds ?s 1 = Some ?bld" "build_status ?bld = Some SUCCESS" "SUCCESS \<noteq> RETRY"
    "1 \<in> set (building ?s)"
    by (simp_all add: state_building_def state0_def)
  from buildFinished_completes_requests [OF 1, of env0 1 100 "[]"] completed_path show ?thesis
    by simp
qed

text \<open>
  Three runs with the result \<open>SUCCESS\<close>. When \<open>completeBuildRequests\<close> fails, and when the
  builder id cannot be resolved, no message is produced and \<open>maybeBuildsetComplete\<close> is not
  called. When the first \<open>maybeBuildsetComplete\<close> call fails, both messages have been
  produced but the second buildset is never checked.
\<close>

theorem buildFinished_failures_counterexample:
  "produced (snd (snd (buildFinished (env0\<lparr>completeBuildRequests := Inl Failure\<rparr>) 1 1 [100]
       (state_building [req42] SUCCESS)))) = []
   \<and> buildset_checks (snd (snd (buildFinished (env0\<lparr>completeBuildRequests := Inl Failure\<rparr>) 1 1
       [100] (state_building [req42] SUCCESS)))) = []
   \<and> produced (snd (snd (buildFinished (env0\<lparr>findBuilderId := (\<lambda>n. Inl Failure)\<rparr>) 1 1 [100]
       ((state_building [req42] SUCCESS)\<lparr>builderid := None\<rparr>)))) = []
   \<and> buildset_checks (snd (snd (buildFinished (env0\<lparr>findBuilderId := (\<lambda>n. Inl Failure)\<rparr>) 1 1
       [100] ((state_building [req42] SUCCESS)\<lparr>builderid := None\<rparr>)))) = []
   \<and> map fst (produced (snd (snd (buildFinished
       (env0\<lparr>maybeBuildsetComplete := (\<lambda>i. Inl Failure)\<rparr>) 1 1 [100]
       (state_building [req10, req42] SUCCESS))))) =
      [[''buildrequest'', ''3'', ''5'', ''10'', ''complete''],
       [''buildrequest'', ''7'', ''5'', ''42'', ''complete'']]
   \<and> buildset_checks (snd (snd (buildFinished
       (env0\<lparr>maybeBuildsetComplete := (\<lambda>i. Inl Failure)\<rparr>) 1 1 [100]
       (state_building [req10, req42] SUCCESS)))) = [3]"
  by (simp add: buildFinished_def close_requests_def notify_completions_def complete_key_def
      complete_body_def list_remove_def getBuilderId_def updateBigStatus_def
      updateBigStatus_try_def state_building_def state0_def env0_def req10_def
      req42_def str_int_def str_nat.simps Let_def)

text \<open>The Deferred of \<open>_resubmit_buildreqs\<close> always fails, after the one store call.\<close>

lemma resubmit_buildreqs_fails:
  "\<exists>err. resubmit_buildreqs e rs = (Inl err, [UnclaimBuildRequests (map br_id rs)])"
  by (auto simp: resubmit_buildreqs_def Let_def split: sum.splits)

text \<open>
  C3 at the two requests of one buildset. With the result \<open>RETRY\<close> the requests are unclaimed,
  no \<open>complete\<close> message is produced and \<open>maybeBuildsetComplete\<close> is not called; the callback
  that should signal the unclaimed requests raises \<open>AttributeError\<close>, which is logged, and no
  signal is emitted.
\<close>

theorem buildFinished_retry_raises_in_notify:
  "buildFinished env0 1 1 [100] (state_building [req10, req11] RETRY) =
     (Inr (), (state_building [req10, req11] RETRY)\<lparr>building := []\<rparr>,
      [FinishBuild 100 RETRY, BuildingRemove 1,
       UnclaimBuildRequests [10, 11],
       LogErr ''while resubmitting a build request'',
       ReleaseLocks worker1, SetBigState ''idle''])"
  by (simp add: buildFinished_def close_requests_def resubmit_buildreqs_def list_remove_def
      updateBigStatus_def updateBigStatus_try_def state_building_def state0_def env0_def
      req10_def req11_def)

end
